theory Spec2Isabelle
  imports Main "HOL-Library.AList"
begin

section \<open>Python values, exceptions and dictionaries\<close>

text \<open>
  The exceptions that the methods of \<^verbatim>\<open>graph.py\<close> let escape. \<open>KeyError\<close> carries the key
  that was missing. \<open>NonStringNode\<close> is not a Python exception: it marks the one place
  where an input leaves this model, a persisted node identifier that is a JSON number or
  boolean (Python would register it as a node; the model keeps identifiers to strings, as
  the persisted schema has them and as \<^verbatim>\<open>main.py\<close> needs them when it joins the path
  into a string).
\<close>

datatype error =
    ValueError
  | KeyError string
  | TypeError
  | AttributeError
  | NetworkXError
  | NonStringNode

text \<open>
  What \<^verbatim>\<open>json.load\<close> returns and \<^verbatim>\<open>json.dump\<close> accepts: \<^verbatim>\<open>None\<close>, booleans, integers
  (unbounded, as Python's), strings, lists and dictionaries with string keys, the latter in
  insertion order (a dictionary holds no key twice; the lookup takes the first entry of a
  key). Floating-point numbers are left out. Writing such a value with
  \<^verbatim>\<open>json.dump\<close> and reading the file back with \<^verbatim>\<open>json.load\<close> gives the value back, so a
  file is identified with the value it holds.
\<close>

datatype json =
    JNull
  | JBool bool
  | JInt int
  | JStr string
  | JList "json list"
  | JObj "(string \<times> json) list"

text \<open>
  A Python \<^verbatim>\<open>dict\<close> is an association list in insertion order: \<open>map_of d k\<close> is the
  lookup, \<open>AList.update k v d\<close> is \<^verbatim>\<open>d[k] = v\<close> (an existing key keeps its position, a
  new key goes last) and \<open>AList.map_entry k f d\<close> changes the value stored under \<open>k\<close>.
\<close>

section \<open>The graph (\<^verbatim>\<open>graph.py\<close>)\<close>

text \<open>
  \<^verbatim>\<open>Graph\<close> has the fields \<^verbatim>\<open>graph\<close> (a \<^verbatim>\<open>networkx.DiGraph\<close>), \<^verbatim>\<open>start_node\<close> and
  \<^verbatim>\<open>goal_node\<close>. Of the \<^verbatim>\<open>DiGraph\<close> the model keeps the two dictionaries the class reads:
  \<open>nodes\<close> is \<^verbatim>\<open>_node\<close>, from a node to its attribute dictionary, which only ever holds the
  key \<^verbatim>\<open>'heuristic'\<close> (\<open>None\<close> is the empty attribute dictionary, \<open>Some h\<close> is
  \<^verbatim>\<open>{'heuristic': h}\<close>); \<open>adj\<close> is \<^verbatim>\<open>_succ\<close>, from a node to the dictionary of its
  successors, each with its attribute dictionary \<^verbatim>\<open>{'weight': w}\<close>. The mirror dictionary
  \<^verbatim>\<open>_pred\<close> is never read by the class and is left out. Heuristics and weights are any
  values \<open>'v\<close>: the class stores them without looking at them.
\<close>

record 'v graph =
  nodes :: "(string \<times> 'v option) list"
  adj :: "(string \<times> (string \<times> 'v) list) list"
  start_node :: "string option"
  goal_node :: "string option"

text \<open>\<^verbatim>\<open>Graph.__init__\<close>\<close>

definition Graph_init :: "'v graph" where
  "Graph_init = \<lparr>nodes = [], adj = [], start_node = None, goal_node = None\<rparr>"

text \<open>
  \<^verbatim>\<open>DiGraph.add_node(n, heuristic=h)\<close>: a node that is not a key of \<^verbatim>\<open>_succ\<close> gets an empty
  successor dictionary and a fresh attribute dictionary; then the attribute is written. (For
  a key of \<^verbatim>\<open>_succ\<close> the attribute dictionary exists already and is updated in place, which
  is the same assignment.)
\<close>

definition nx_add_node :: "'v graph \<Rightarrow> string \<Rightarrow> 'v \<Rightarrow> 'v graph" where
  "nx_add_node g n h =
     (if map_of (adj g) n = None
      then g\<lparr>nodes := AList.update n (Some h) (nodes g), adj := AList.update n [] (adj g)\<rparr>
      else g\<lparr>nodes := AList.update n (Some h) (nodes g)\<rparr>)"

text \<open>
  The first half of \<^verbatim>\<open>DiGraph.add_edge\<close>, once for each endpoint: an endpoint that is not
  a key of \<^verbatim>\<open>_succ\<close> is registered with an empty successor dictionary and an empty attribute
  dictionary.
\<close>

definition nx_ensure_node :: "'v graph \<Rightarrow> string \<Rightarrow> 'v graph" where
  "nx_ensure_node g n =
     (if map_of (adj g) n = None
      then g\<lparr>nodes := AList.update n None (nodes g), adj := AList.update n [] (adj g)\<rparr>
      else g)"

text \<open>
  \<^verbatim>\<open>DiGraph.add_edge(u, v, weight=w)\<close>: both endpoints are ensured, \<open>u\<close> first; then
  \<^verbatim>\<open>_succ[u][v]\<close> is assigned the attribute dictionary of the edge with its weight
  overwritten.
\<close>

definition nx_add_edge :: "'v graph \<Rightarrow> string \<Rightarrow> string \<Rightarrow> 'v \<Rightarrow> 'v graph" where
  "nx_add_edge g u v w =
     (let g1 = nx_ensure_node g u;
          g2 = nx_ensure_node g1 v
      in g2\<lparr>adj := AList.map_entry u (AList.update v w) (adj g2)\<rparr>)"

text \<open>
  The methods of \<^verbatim>\<open>Graph\<close>, with \<^verbatim>\<open>self\<close> as first argument. A method that mutates
  returns the new object; a method that can raise returns \<open>Inl\<close> of the exception. The
  default arguments (\<^verbatim>\<open>heuristic=0\<close>, \<^verbatim>\<open>weight=1\<close>) are passed explicitly.
\<close>

definition add_node :: "'v graph \<Rightarrow> string \<Rightarrow> 'v \<Rightarrow> 'v graph" where
  "add_node self node_id heuristic = nx_add_node self node_id heuristic"

definition add_edge :: "'v graph \<Rightarrow> string \<Rightarrow> string \<Rightarrow> 'v \<Rightarrow> 'v graph" where
  "add_edge self from_node to_node weight = nx_add_edge self from_node to_node weight"

definition set_start_node :: "'v graph \<Rightarrow> string \<Rightarrow> error + 'v graph" where
  "set_start_node self node_id =
     (if map_of (nodes self) node_id \<noteq> None
      then Inr (self\<lparr>start_node := Some node_id\<rparr>)
      else Inl ValueError)"

definition set_goal_node :: "'v graph \<Rightarrow> string \<Rightarrow> error + 'v graph" where
  "set_goal_node self node_id =
     (if map_of (nodes self) node_id \<noteq> None
      then Inr (self\<lparr>goal_node := Some node_id\<rparr>)
      else Inl ValueError)"

text \<open>\<^verbatim>\<open>self.graph.nodes[node_id]['heuristic']\<close>: two dictionary lookups.\<close>

definition get_heuristic :: "'v graph \<Rightarrow> string \<Rightarrow> error + 'v" where
  "get_heuristic self node_id =
     (case map_of (nodes self) node_id of
        None \<Rightarrow> Inl (KeyError node_id)
      | Some None \<Rightarrow> Inl (KeyError ''heuristic'')
      | Some (Some h) \<Rightarrow> Inr h)"

text \<open>
  \<^verbatim>\<open>list(self.graph.successors(node_id))\<close>: the keys of \<^verbatim>\<open>_succ[node_id]\<close>;
  \<^verbatim>\<open>successors\<close> turns the \<^verbatim>\<open>KeyError\<close> of a missing node into a \<^verbatim>\<open>NetworkXError\<close>.
\<close>

definition get_neighbors :: "'v graph \<Rightarrow> string \<Rightarrow> error + string list" where
  "get_neighbors self node_id =
     (case map_of (adj self) node_id of
        None \<Rightarrow> Inl NetworkXError
      | Some nbrs \<Rightarrow> Inr (map fst nbrs))"

text \<open>\<^verbatim>\<open>self.graph[from_node_id][to_node_id]['weight']\<close>\<close>

definition get_edge_weight :: "'v graph \<Rightarrow> string \<Rightarrow> string \<Rightarrow> error + 'v" where
  "get_edge_weight self from_node_id to_node_id =
     (case map_of (adj self) from_node_id of
        None \<Rightarrow> Inl (KeyError from_node_id)
      | Some nbrs \<Rightarrow>
          (case map_of nbrs to_node_id of
             None \<Rightarrow> Inl (KeyError to_node_id)
           | Some w \<Rightarrow> Inr w))"

subsection \<open>Saving\<close>

text \<open>
  \<^verbatim>\<open>self.graph.edges\<close> iterates over \<^verbatim>\<open>_succ\<close>: for each node in turn, each of its
  successors in turn.
\<close>

definition nx_edges :: "'v graph \<Rightarrow> (string \<times> string) list" where
  "nx_edges g = concat (map (\<lambda>(u, nbrs). map (\<lambda>(v, w). (u, v)) nbrs) (adj g))"

text \<open>The two list comprehensions of \<^verbatim>\<open>save_to_file\<close>; an exception ends them.\<close>

fun node_entries :: "json graph \<Rightarrow> string list \<Rightarrow> error + json list" where
  "node_entries self [] = Inr []"
| "node_entries self (node # rest) =
     (case get_heuristic self node of
        Inl e \<Rightarrow> Inl e
      | Inr h \<Rightarrow>
          (case node_entries self rest of
             Inl e \<Rightarrow> Inl e
           | Inr js \<Rightarrow> Inr (JObj [(''id'', JStr node), (''heuristic'', h)] # js)))"

fun edge_entries :: "json graph \<Rightarrow> (string \<times> string) list \<Rightarrow> error + json list" where
  "edge_entries self [] = Inr []"
| "edge_entries self (edge # rest) =
     (case get_edge_weight self (fst edge) (snd edge) of
        Inl e \<Rightarrow> Inl e
      | Inr w \<Rightarrow>
          (case edge_entries self rest of
             Inl e \<Rightarrow> Inl e
           | Inr js \<Rightarrow>
               Inr (JObj [(''from'', JStr (fst edge)), (''to'', JStr (snd edge)), (''weight'', w)]
                    # js)))"

definition json_of_designation :: "string option \<Rightarrow> json" where
  "json_of_designation d = (case d of None \<Rightarrow> JNull | Some s \<Rightarrow> JStr s)"

text \<open>
  \<^verbatim>\<open>save_to_file\<close> builds \<^verbatim>\<open>graph_data\<close> and only then opens the file: the result is the
  value written, or the exception raised before anything is written.
\<close>

definition save_to_file :: "json graph \<Rightarrow> error + json" where
  "save_to_file self =
     (case node_entries self (map fst (nodes self)) of
        Inl e \<Rightarrow> Inl e
      | Inr ns \<Rightarrow>
          (case edge_entries self (nx_edges self) of
             Inl e \<Rightarrow> Inl e
           | Inr es \<Rightarrow>
               Inr (JObj [(''nodes'', JList ns),
                          (''edges'', JList es),
                          (''start_node'', json_of_designation (start_node self)),
                          (''goal_node'', json_of_designation (goal_node self))])))"

subsection \<open>Loading\<close>

text \<open>\<^verbatim>\<open>x[key]\<close> with a string key: only a dictionary can be subscripted so.\<close>

fun subscript :: "json \<Rightarrow> string \<Rightarrow> error + json" where
  "subscript (JObj d) key = (case map_of d key of None \<Rightarrow> Inl (KeyError key) | Some v \<Rightarrow> Inr v)"
| "subscript _ key = Inl TypeError"

text \<open>\<^verbatim>\<open>x.get(key)\<close>\<close>

fun py_get :: "json \<Rightarrow> string \<Rightarrow> error + json" where
  "py_get (JObj d) key = (case map_of d key of None \<Rightarrow> Inr JNull | Some v \<Rightarrow> Inr v)"
| "py_get _ key = Inl AttributeError"

text \<open>
  \<^verbatim>\<open>for x in value\<close>: a list gives its elements, a dictionary its keys, a string its
  characters; nothing else is iterable.
\<close>

fun py_iter :: "json \<Rightarrow> error + json list" where
  "py_iter (JList xs) = Inr xs"
| "py_iter (JObj d) = Inr (map (\<lambda>kv. JStr (fst kv)) d)"
| "py_iter (JStr s) = Inr (map (\<lambda>c. JStr [c]) s)"
| "py_iter _ = Inl TypeError"

text \<open>The truth value of \<^verbatim>\<open>if value:\<close>\<close>

fun truthy :: "json \<Rightarrow> bool" where
  "truthy JNull = False"
| "truthy (JBool b) = b"
| "truthy (JInt n) = (n \<noteq> 0)"
| "truthy (JStr s) = (s \<noteq> [])"
| "truthy (JList xs) = (xs \<noteq> [])"
| "truthy (JObj d) = (d \<noteq> [])"

text \<open>
  A loaded value used as a node by \<^verbatim>\<open>DiGraph.add_node\<close> and \<^verbatim>\<open>DiGraph.add_edge\<close>: a
  string is a node; \<^verbatim>\<open>None\<close> is refused with \<^verbatim>\<open>ValueError\<close> ("None cannot be a node"); a
  list or a dictionary is not hashable; a number or a boolean is outside this model.
\<close>

fun as_node :: "json \<Rightarrow> error + string" where
  "as_node (JStr s) = Inr s"
| "as_node JNull = Inl ValueError"
| "as_node (JList xs) = Inl TypeError"
| "as_node (JObj d) = Inl TypeError"
| "as_node (JInt n) = Inl NonStringNode"
| "as_node (JBool b) = Inl NonStringNode"

text \<open>The loop over \<^verbatim>\<open>graph_data['nodes']\<close>.\<close>

fun load_nodes :: "json graph \<Rightarrow> json list \<Rightarrow> error + json graph" where
  "load_nodes graph [] = Inr graph"
| "load_nodes graph (node_data # rest) =
     (case subscript node_data ''id'' of
        Inl e \<Rightarrow> Inl e
      | Inr i \<Rightarrow>
          (case subscript node_data ''heuristic'' of
             Inl e \<Rightarrow> Inl e
           | Inr h \<Rightarrow>
               (case as_node i of
                  Inl e \<Rightarrow> Inl e
                | Inr n \<Rightarrow> load_nodes (add_node graph n h) rest)))"

text \<open>The loop over \<^verbatim>\<open>graph_data['edges']\<close>; \<^verbatim>\<open>add_edge\<close> looks at \<open>from\<close> before \<open>to\<close>.\<close>

fun load_edges :: "json graph \<Rightarrow> json list \<Rightarrow> error + json graph" where
  "load_edges graph [] = Inr graph"
| "load_edges graph (edge_data # rest) =
     (case subscript edge_data ''from'' of
        Inl e \<Rightarrow> Inl e
      | Inr f \<Rightarrow>
          (case subscript edge_data ''to'' of
             Inl e \<Rightarrow> Inl e
           | Inr t \<Rightarrow>
               (case subscript edge_data ''weight'' of
                  Inl e \<Rightarrow> Inl e
                | Inr w \<Rightarrow>
                    (case as_node f of
                       Inl e \<Rightarrow> Inl e
                     | Inr u \<Rightarrow>
                         (case as_node t of
                            Inl e \<Rightarrow> Inl e
                          | Inr v \<Rightarrow> load_edges (add_edge graph u v w) rest)))))"

text \<open>
  \<^verbatim>\<open>set_start_node\<close> and \<^verbatim>\<open>set_goal_node\<close> called with a loaded value: the membership test
  \<^verbatim>\<open>node_id in self.graph.nodes\<close> hashes the value, so a list or a dictionary raises
  \<^verbatim>\<open>TypeError\<close>; any other value that is not a string equals no node of the graph.
\<close>

fun set_loaded ::
  "(json graph \<Rightarrow> string \<Rightarrow> error + json graph) \<Rightarrow> json graph \<Rightarrow> json \<Rightarrow> error + json graph"
where
  "set_loaded setter graph (JStr s) = setter graph s"
| "set_loaded setter graph (JList xs) = Inl TypeError"
| "set_loaded setter graph (JObj d) = Inl TypeError"
| "set_loaded setter graph _ = Inl ValueError"

text \<open>
  \<^verbatim>\<open>if graph_data.get(key): setter(graph_data[key])\<close>
\<close>

definition load_designation ::
  "(json graph \<Rightarrow> string \<Rightarrow> error + json graph) \<Rightarrow> json \<Rightarrow> string \<Rightarrow> json graph
     \<Rightarrow> error + json graph"
where
  "load_designation setter graph_data key graph =
     (case py_get graph_data key of
        Inl e \<Rightarrow> Inl e
      | Inr x \<Rightarrow>
          (if truthy x
           then (case subscript graph_data key of
                   Inl e \<Rightarrow> Inl e
                 | Inr y \<Rightarrow> set_loaded setter graph y)
           else Inr graph))"

text \<open>
  \<^verbatim>\<open>load_from_file\<close> after \<^verbatim>\<open>json.load\<close>: the argument is the value read from the file,
  the result the graph returned or the exception that escapes.
\<close>

definition load_from_file :: "json \<Rightarrow> error + json graph" where
  "load_from_file graph_data =
     (case subscript graph_data ''nodes'' of
        Inl e \<Rightarrow> Inl e
      | Inr ns \<Rightarrow>
     (case py_iter ns of
        Inl e \<Rightarrow> Inl e
      | Inr node_list \<Rightarrow>
     (case load_nodes Graph_init node_list of
        Inl e \<Rightarrow> Inl e
      | Inr g1 \<Rightarrow>
     (case subscript graph_data ''edges'' of
        Inl e \<Rightarrow> Inl e
      | Inr es \<Rightarrow>
     (case py_iter es of
        Inl e \<Rightarrow> Inl e
      | Inr edge_list \<Rightarrow>
     (case load_edges g1 edge_list of
        Inl e \<Rightarrow> Inl e
      | Inr g2 \<Rightarrow>
     (case load_designation set_start_node graph_data ''start_node'' g2 of
        Inl e \<Rightarrow> Inl e
      | Inr g3 \<Rightarrow> load_designation set_goal_node graph_data ''goal_node'' g3)))))))"

section \<open>Histories of calls\<close>

text \<open>
  Every \<^verbatim>\<open>Graph\<close> object starts as \<^verbatim>\<open>Graph()\<close> and changes only through calls of its four
  mutating methods. A call that raises leaves the object as it was.
\<close>

datatype 'v call =
    AddNode string 'v
  | AddEdge string string 'v
  | SetStartNode string
  | SetGoalNode string

fun perform :: "'v graph \<Rightarrow> 'v call \<Rightarrow> 'v graph" where
  "perform g (AddNode n h) = add_node g n h"
| "perform g (AddEdge u v w) = add_edge g u v w"
| "perform g (SetStartNode n) = (case set_start_node g n of Inl e \<Rightarrow> g | Inr g' \<Rightarrow> g')"
| "perform g (SetGoalNode n) = (case set_goal_node g n of Inl e \<Rightarrow> g | Inr g' \<Rightarrow> g')"

definition run :: "'v call list \<Rightarrow> 'v graph" where
  "run calls = foldl perform Graph_init calls"

definition node_set :: "'v graph \<Rightarrow> string set" where
  "node_set g = fst ` set (nodes g)"

section \<open>Notions used by the properties\<close>

text \<open>
  The shape every \<^verbatim>\<open>Graph\<close> object has: \<^verbatim>\<open>_node\<close> and \<^verbatim>\<open>_succ\<close> are dictionaries (no key
  twice) with the same keys in the same order, every successor dictionary is a dictionary,
  and every successor is a node.
\<close>

definition wf_graph :: "'v graph \<Rightarrow> bool" where
  "wf_graph g \<longleftrightarrow>
     distinct (map fst (nodes g)) \<and>
     map fst (adj g) = map fst (nodes g) \<and>
     (\<forall>entry \<in> set (adj g).
        distinct (map fst (snd entry)) \<and> fst ` set (snd entry) \<subseteq> fst ` set (nodes g))"

text \<open>A designation that is set names a node of the graph.\<close>

definition designations_ok :: "'v graph \<Rightarrow> bool" where
  "designations_ok g \<longleftrightarrow>
     (case start_node g of None \<Rightarrow> True | Some s \<Rightarrow> s \<in> node_set g) \<and>
     (case goal_node g of None \<Rightarrow> True | Some t \<Rightarrow> t \<in> node_set g)"

text \<open>
  The heuristic most recently passed to \<^verbatim>\<open>add_node\<close> for an identifier in a history of
  calls, if there was such a call.
\<close>

fun stored_heuristic :: "'v call list \<Rightarrow> string \<Rightarrow> 'v option" where
  "stored_heuristic [] n = None"
| "stored_heuristic (AddNode m h # cs) n =
     (case stored_heuristic cs n of
        Some h' \<Rightarrow> Some h'
      | None \<Rightarrow> if m = n then Some h else None)"
| "stored_heuristic (c # cs) n = stored_heuristic cs n"

text \<open>The identifiers that a history of calls passed to \<^verbatim>\<open>add_edge\<close> as an endpoint.\<close>

fun edge_endpoints :: "'v call list \<Rightarrow> string set" where
  "edge_endpoints [] = {}"
| "edge_endpoints (AddEdge u v w # cs) = insert u (insert v (edge_endpoints cs))"
| "edge_endpoints (c # cs) = edge_endpoints cs"

text \<open>
  The destinations of the \<^verbatim>\<open>add_edge\<close> calls of a history that leave a given node, in the
  order of the calls.
\<close>

fun edge_targets :: "string \<Rightarrow> 'v call list \<Rightarrow> string list" where
  "edge_targets n [] = []"
| "edge_targets n (AddEdge u v w # cs) =
     (if u = n then v # edge_targets n cs else edge_targets n cs)"
| "edge_targets n (c # cs) = edge_targets n cs"

text \<open>A list without its repetitions: every element stays where it first occurs.\<close>

definition first_occurrences :: "'a list \<Rightarrow> 'a list" where
  "first_occurrences xs = rev (remdups (rev xs))"

text \<open>A loaded value is a dictionary that has the key.\<close>

fun has_key :: "json \<Rightarrow> string \<Rightarrow> bool" where
  "has_key (JObj d) key = (map_of d key \<noteq> None)"
| "has_key _ key = False"

text \<open>Every node of the graph carries a heuristic.\<close>

definition all_heuristics :: "'v graph \<Rightarrow> bool" where
  "all_heuristics g \<longleftrightarrow> (\<forall>entry \<in> set (nodes g). snd entry \<noteq> None)"

text \<open>
  The successors of a node in the order of its successor dictionary; no successors for an
  identifier that is not a node.
\<close>

definition succ_keys :: "'v graph \<Rightarrow> string \<Rightarrow> string list" where
  "succ_keys g n = (case map_of (adj g) n of None \<Rightarrow> [] | Some nbrs \<Rightarrow> map fst nbrs)"

text \<open>
  The entries that \<^verbatim>\<open>save_to_file\<close> writes for a node with its heuristic and for an edge
  with its weight, and the edges of a successor dictionary with their weights, in the order
  of \<^verbatim>\<open>self.graph.edges\<close>.
\<close>

definition node_json :: "string \<times> json \<Rightarrow> json" where
  "node_json e = JObj [(''id'', JStr (fst e)), (''heuristic'', snd e)]"

definition edge_json :: "string \<times> string \<times> json \<Rightarrow> json" where
  "edge_json e =
     JObj [(''from'', JStr (fst e)), (''to'', JStr (fst (snd e))), (''weight'', snd (snd e))]"

definition weighted_edges ::
  "(string \<times> (string \<times> 'v) list) list \<Rightarrow> (string \<times> string \<times> 'v) list"
where
  "weighted_edges A = concat (map (\<lambda>entry. map (\<lambda>e. (fst entry, fst e, snd e)) (snd entry)) A)"

text \<open>
  What becomes of a designation when a saved graph is loaded: the guard
  \<^verbatim>\<open>if graph_data.get('start_node'):\<close> skips the empty string as it skips \<^verbatim>\<open>None\<close>.
\<close>

definition drop_empty :: "string option \<Rightarrow> string option" where
  "drop_empty d = (if d = Some [] then None else d)"

section \<open>The shape of a graph is kept by every method\<close>

lemma map_fst_map_entry: "map fst (AList.map_entry k f xs) = map fst xs"
  by (induct xs) auto

lemma set_map_entry:
  "p \<in> set (AList.map_entry k f xs) \<Longrightarrow> p \<in> set xs \<or> (\<exists>y. (k, y) \<in> set xs \<and> p = (k, f y))"
  by (induct xs) (auto split: if_splits)

lemma set_alist_update: "p \<in> set (AList.update k v xs) \<Longrightarrow> p = (k, v) \<or> p \<in> set xs"
  by (induct xs) (auto split: if_splits)

lemma keys_eq_sets: "map fst xs = map fst ys \<Longrightarrow> fst ` set xs = fst ` set ys"
  by (metis set_map)

lemma wf_same_keys: "wf_graph g \<Longrightarrow> fst ` set (adj g) = fst ` set (nodes g)"
  using keys_eq_sets[of "adj g" "nodes g"] by (simp add: wf_graph_def)

lemma wf_Graph_init: "wf_graph Graph_init"
  by (simp add: wf_graph_def Graph_init_def)

lemma wf_nx_add_node:
  assumes "wf_graph g"
  shows "wf_graph (nx_add_node g n h)"
proof -
  let ?g = "nx_add_node g n h"
  from assms have same: "fst ` set (adj g) = fst ` set (nodes g)"
    by (rule wf_same_keys)
  have keys: "fst ` set (nodes g) \<subseteq> fst ` set (nodes ?g)"
    by (auto simp: nx_add_node_def dom_update)
  have d: "distinct (map fst (nodes ?g))"
    using assms by (simp add: wf_graph_def nx_add_node_def distinct_update)
  have k: "map fst (adj ?g) = map fst (nodes ?g)"
    using assms same by (simp add: wf_graph_def nx_add_node_def update_keys map_of_eq_None_iff)
  have e: "distinct (map fst (snd entry)) \<and> fst ` set (snd entry) \<subseteq> fst ` set (nodes ?g)"
    if "entry \<in> set (adj ?g)" for entry
  proof -
    from that have "entry = (n, []) \<or> entry \<in> set (adj g)"
      by (auto simp: nx_add_node_def dest: set_alist_update split: if_splits)
    then show ?thesis
    proof
      assume "entry = (n, [])"
      then show ?thesis by simp
    next
      assume "entry \<in> set (adj g)"
      with assms
      have "distinct (map fst (snd entry)) \<and> fst ` set (snd entry) \<subseteq> fst ` set (nodes g)"
        by (simp add: wf_graph_def)
      with keys show ?thesis by blast
    qed
  qed
  show ?thesis
    unfolding wf_graph_def using d k e by blast
qed

lemma wf_nx_ensure_node:
  assumes "wf_graph g"
  shows "wf_graph (nx_ensure_node g n)"
proof -
  let ?g = "nx_ensure_node g n"
  from assms have same: "fst ` set (adj g) = fst ` set (nodes g)"
    by (rule wf_same_keys)
  have keys: "fst ` set (nodes g) \<subseteq> fst ` set (nodes ?g)"
    by (auto simp: nx_ensure_node_def dom_update)
  have d: "distinct (map fst (nodes ?g))"
    using assms by (simp add: wf_graph_def nx_ensure_node_def distinct_update)
  have k: "map fst (adj ?g) = map fst (nodes ?g)"
    using assms same by (simp add: wf_graph_def nx_ensure_node_def update_keys map_of_eq_None_iff)
  have e: "distinct (map fst (snd entry)) \<and> fst ` set (snd entry) \<subseteq> fst ` set (nodes ?g)"
    if "entry \<in> set (adj ?g)" for entry
  proof -
    from that have "entry = (n, []) \<or> entry \<in> set (adj g)"
      by (auto simp: nx_ensure_node_def dest: set_alist_update split: if_splits)
    then show ?thesis
    proof
      assume "entry = (n, [])"
      then show ?thesis by simp
    next
      assume "entry \<in> set (adj g)"
      with assms
      have "distinct (map fst (snd entry)) \<and> fst ` set (snd entry) \<subseteq> fst ` set (nodes g)"
        by (simp add: wf_graph_def)
      with keys show ?thesis by blast
    qed
  qed
  show ?thesis
    unfolding wf_graph_def using d k e by blast
qed

lemma nx_ensure_node_present:
  assumes "wf_graph g"
  shows "n \<in> fst ` set (nodes (nx_ensure_node g n))"
proof -
  from assms have same: "fst ` set (adj g) = fst ` set (nodes g)"
    by (rule wf_same_keys)
  show ?thesis
  proof (cases "map_of (adj g) n = None")
    case True
    then show ?thesis by (simp add: nx_ensure_node_def dom_update)
  next
    case False
    then have "n \<in> fst ` set (adj g)" by (simp add: map_of_eq_None_iff)
    with same False show ?thesis by (auto simp: nx_ensure_node_def)
  qed
qed

lemma nx_ensure_node_keeps: "fst ` set (nodes g) \<subseteq> fst ` set (nodes (nx_ensure_node g n))"
  by (auto simp: nx_ensure_node_def dom_update)

lemma wf_nx_add_edge:
  assumes "wf_graph g"
  shows "wf_graph (nx_add_edge g u v w)"
proof -
  define g2 where "g2 = nx_ensure_node (nx_ensure_node g u) v"
  have wf2: "wf_graph g2"
    unfolding g2_def by (intro wf_nx_ensure_node assms)
  have vin: "v \<in> fst ` set (nodes g2)"
    unfolding g2_def by (intro nx_ensure_node_present wf_nx_ensure_node assms)
  have eq: "nx_add_edge g u v w = g2\<lparr>adj := AList.map_entry u (AList.update v w) (adj g2)\<rparr>"
    by (simp add: nx_add_edge_def g2_def Let_def)
  have e: "distinct (map fst (snd entry)) \<and> fst ` set (snd entry) \<subseteq> fst ` set (nodes g2)"
    if "entry \<in> set (AList.map_entry u (AList.update v w) (adj g2))" for entry
  proof -
    from set_map_entry[OF that]
    consider "entry \<in> set (adj g2)"
      | y where "(u, y) \<in> set (adj g2)" "entry = (u, AList.update v w y)"
      by blast
    then show ?thesis
    proof cases
      case 1
      then show ?thesis using wf2 unfolding wf_graph_def by auto
    next
      case 2
      from wf2 have "\<forall>entry \<in> set (adj g2).
          distinct (map fst (snd entry)) \<and> fst ` set (snd entry) \<subseteq> fst ` set (nodes g2)"
        by (simp add: wf_graph_def)
      from bspec[OF this 2(1)]
      have "distinct (map fst y)" "fst ` set y \<subseteq> fst ` set (nodes g2)"
        by simp_all
      then show ?thesis
        using vin 2(2) by (simp add: dom_update distinct_update)
    qed
  qed
  show ?thesis
    unfolding eq wf_graph_def using wf2 e
    by (simp add: map_fst_map_entry wf_graph_def)
qed

lemma wf_perform: "wf_graph g \<Longrightarrow> wf_graph (perform g c)"
proof (cases c)
  case (AddNode n h)
  assume "wf_graph g"
  then show ?thesis by (simp add: AddNode add_node_def wf_nx_add_node)
next
  case (AddEdge u v w)
  assume "wf_graph g"
  then show ?thesis by (simp add: AddEdge add_edge_def wf_nx_add_edge)
next
  case (SetStartNode n)
  assume "wf_graph g"
  then show ?thesis by (simp add: SetStartNode set_start_node_def wf_graph_def)
next
  case (SetGoalNode n)
  assume "wf_graph g"
  then show ?thesis by (simp add: SetGoalNode set_goal_node_def wf_graph_def)
qed

lemma wf_foldl_perform: "wf_graph g \<Longrightarrow> wf_graph (foldl perform g cs)"
  by (induction cs arbitrary: g) (simp_all add: wf_perform)

lemma wf_run: "wf_graph (run cs)"
  by (simp add: run_def wf_foldl_perform wf_Graph_init)

section \<open>The node dictionary after a history of calls\<close>

lemma run_snoc: "run (cs @ [c]) = perform (run cs) c"
  by (simp add: run_def)

lemma run_Nil: "run [] = Graph_init"
  by (simp add: run_def)

lemma stored_heuristic_snoc:
  "stored_heuristic (cs @ [c]) n =
     (case c of AddNode m h \<Rightarrow> if m = n then Some h else stored_heuristic cs n
              | _ \<Rightarrow> stored_heuristic cs n)"
  by (induction cs n rule: stored_heuristic.induct) (auto split: call.splits option.splits)

lemma edge_endpoints_snoc:
  "edge_endpoints (cs @ [c]) =
     (case c of AddEdge u v w \<Rightarrow> insert u (insert v (edge_endpoints cs))
              | _ \<Rightarrow> edge_endpoints cs)"
  by (induction cs rule: edge_endpoints.induct) (auto split: call.splits)

lemma node_set_iff: "n \<in> node_set g \<longleftrightarrow> map_of (nodes g) n \<noteq> None"
  by (simp add: node_set_def map_of_eq_None_iff)

lemma nodes_nx_add_node:
  "map_of (nodes (nx_add_node g m h)) n = (if n = m then Some (Some h) else map_of (nodes g) n)"
  by (simp add: nx_add_node_def update_conv')

lemma nodes_nx_ensure_node:
  assumes "wf_graph g"
  shows "map_of (nodes (nx_ensure_node g m)) n =
           (if n = m \<and> m \<notin> node_set g then Some None else map_of (nodes g) n)"
proof -
  have "map_of (adj g) m = None \<longleftrightarrow> m \<notin> node_set g"
    using wf_same_keys[OF assms] by (simp add: node_set_def map_of_eq_None_iff)
  then show ?thesis
    by (auto simp: nx_ensure_node_def update_conv')
qed

lemma node_set_nx_ensure_node:
  "wf_graph g \<Longrightarrow> node_set (nx_ensure_node g m) = insert m (node_set g)"
  by (auto simp: node_set_iff nodes_nx_ensure_node split: if_splits)

lemma nodes_nx_add_edge:
  assumes "wf_graph g"
  shows "map_of (nodes (nx_add_edge g u v w)) n =
           (if (n = u \<or> n = v) \<and> n \<notin> node_set g then Some None else map_of (nodes g) n)"
proof -
  have "nodes (nx_add_edge g u v w) = nodes (nx_ensure_node (nx_ensure_node g u) v)"
    by (simp add: nx_add_edge_def Let_def)
  then show ?thesis
    using assms
    by (auto simp: nodes_nx_ensure_node wf_nx_ensure_node node_set_nx_ensure_node node_set_iff)
qed

lemma nodes_perform:
  assumes "wf_graph g"
  shows "map_of (nodes (perform g c)) n =
     (case c of
        AddNode m h \<Rightarrow> if n = m then Some (Some h) else map_of (nodes g) n
      | AddEdge u v w \<Rightarrow>
          if (n = u \<or> n = v) \<and> n \<notin> node_set g then Some None else map_of (nodes g) n
      | _ \<Rightarrow> map_of (nodes g) n)"
  using assms
  by (cases c)
     (simp_all add: add_node_def add_edge_def nodes_nx_add_node nodes_nx_add_edge
                    set_start_node_def set_goal_node_def)

lemma nodes_run:
  "map_of (nodes (run cs)) n =
     (case stored_heuristic cs n of
        Some h \<Rightarrow> Some (Some h)
      | None \<Rightarrow> if n \<in> edge_endpoints cs then Some None else None)"
proof (induction cs rule: rev_induct)
  case Nil
  then show ?case by (simp add: run_Nil Graph_init_def)
next
  case (snoc c cs)
  show ?case
    unfolding run_snoc nodes_perform[OF wf_run] stored_heuristic_snoc edge_endpoints_snoc
    using snoc
    by (cases c) (auto simp: node_set_iff split: option.splits if_splits)
qed

section \<open>The successor dictionaries after a history of calls\<close>

lemma succ_keys_nx_add_node: "succ_keys (nx_add_node g m h) n = succ_keys g n"
  by (auto simp: succ_keys_def nx_add_node_def update_conv' split: option.splits)

lemma succ_keys_nx_ensure_node: "succ_keys (nx_ensure_node g m) n = succ_keys g n"
  by (auto simp: succ_keys_def nx_ensure_node_def update_conv' split: option.splits)

lemma adj_nx_ensure_node_same: "map_of (adj (nx_ensure_node g m)) m \<noteq> None"
  by (auto simp: nx_ensure_node_def update_conv')

lemma adj_nx_ensure_node_other:
  "map_of (adj g) u \<noteq> None \<Longrightarrow> map_of (adj (nx_ensure_node g m)) u \<noteq> None"
  by (auto simp: nx_ensure_node_def update_conv')

lemma succ_keys_nx_add_edge:
  "succ_keys (nx_add_edge g u v w) n =
     (if n = u
      then (if v \<in> set (succ_keys g u) then succ_keys g u else succ_keys g u @ [v])
      else succ_keys g n)"
proof -
  define g2 where "g2 = nx_ensure_node (nx_ensure_node g u) v"
  have keys2: "succ_keys g2 m = succ_keys g m" for m
    by (simp add: g2_def succ_keys_nx_ensure_node)
  have "map_of (adj g2) u \<noteq> None"
    unfolding g2_def by (intro adj_nx_ensure_node_other adj_nx_ensure_node_same)
  then obtain d where d: "map_of (adj g2) u = Some d"
    by auto
  with keys2[of u] have du: "map fst d = succ_keys g u"
    by (simp add: succ_keys_def)
  have "adj (nx_add_edge g u v w) = AList.map_entry u (AList.update v w) (adj g2)"
    by (simp add: nx_add_edge_def g2_def Let_def)
  then have "map_of (adj (nx_add_edge g u v w)) =
               (map_of (adj g2))(u := Some (AList.update v w d))"
    by (simp add: map_of_map_entry d)
  then show ?thesis
    using keys2[of n] du
    by (auto simp: succ_keys_def update_keys)
qed

lemma succ_keys_perform:
  "succ_keys (perform g c) n =
     (case c of
        AddEdge u v w \<Rightarrow>
          if n = u
          then (if v \<in> set (succ_keys g u) then succ_keys g u else succ_keys g u @ [v])
          else succ_keys g n
      | _ \<Rightarrow> succ_keys g n)"
proof (cases c)
  case (AddNode m h)
  then show ?thesis by (simp add: add_node_def succ_keys_nx_add_node)
next
  case (AddEdge u v w)
  then show ?thesis by (simp add: add_edge_def succ_keys_nx_add_edge)
next
  case (SetStartNode m)
  then show ?thesis by (simp add: set_start_node_def succ_keys_def)
next
  case (SetGoalNode m)
  then show ?thesis by (simp add: set_goal_node_def succ_keys_def)
qed

lemma first_occurrences_snoc:
  "first_occurrences (xs @ [v]) =
     (if v \<in> set xs then first_occurrences xs else first_occurrences xs @ [v])"
  by (simp add: first_occurrences_def)

lemma set_first_occurrences: "set (first_occurrences xs) = set xs"
  by (simp add: first_occurrences_def)

lemma edge_targets_snoc:
  "edge_targets n (cs @ [c]) =
     (case c of AddEdge u v w \<Rightarrow> if u = n then edge_targets n cs @ [v] else edge_targets n cs
              | _ \<Rightarrow> edge_targets n cs)"
  by (induction n cs rule: edge_targets.induct) (auto split: call.splits)

lemma succ_keys_run: "succ_keys (run cs) n = first_occurrences (edge_targets n cs)"
proof (induction cs rule: rev_induct)
  case Nil
  then show ?case by (simp add: run_Nil Graph_init_def succ_keys_def first_occurrences_def)
next
  case (snoc c cs)
  show ?case
    unfolding run_snoc succ_keys_perform edge_targets_snoc
    using snoc
    by (cases c) (auto simp: first_occurrences_snoc set_first_occurrences)
qed

lemma adj_present_iff: "wf_graph g \<Longrightarrow> map_of (adj g) n = None \<longleftrightarrow> n \<notin> node_set g"
  using wf_same_keys[of g] by (simp add: node_set_def map_of_eq_None_iff)

section \<open>Edges of a well-formed graph\<close>

lemma set_nx_edges:
  "(u, v) \<in> set (nx_edges g) \<longleftrightarrow> (\<exists>nbrs. (u, nbrs) \<in> set (adj g) \<and> v \<in> fst ` set nbrs)"
  by (force simp: nx_edges_def)

lemma distinct_edges_of:
  assumes "distinct (map fst A)" "\<forall>entry \<in> set A. distinct (map fst (snd entry))"
  shows "distinct (concat (map (\<lambda>(u, nbrs). map (\<lambda>(v, w). (u, v)) nbrs) A))"
  using assms
proof (induction A)
  case Nil
  then show ?case by simp
next
  case (Cons a A)
  obtain u nbrs where a: "a = (u, nbrs)" by (cases a)
  have here: "distinct (map (\<lambda>(v, w). (u, v)) nbrs)"
  proof -
    have "map (\<lambda>(v, w). (u, v)) nbrs = map (Pair u) (map fst nbrs)"
      by (simp add: case_prod_unfold comp_def)
    moreover have "distinct (map fst nbrs)"
      using Cons.prems(2) by (simp add: a)
    ultimately show ?thesis
      by (simp add: distinct_map inj_on_def)
  qed
  have rest: "distinct (concat (map (\<lambda>(u, nbrs). map (\<lambda>(v, w). (u, v)) nbrs) A))"
    using Cons by simp
  have apart: "set (map (\<lambda>(v, w). (u, v)) nbrs) \<inter>
               set (concat (map (\<lambda>(u, nbrs). map (\<lambda>(v, w). (u, v)) nbrs) A)) = {}"
    using Cons.prems(1) unfolding a by force
  show ?case
    unfolding a using here rest apart by simp
qed

lemma distinct_nx_edges: "wf_graph g \<Longrightarrow> distinct (nx_edges g)"
  unfolding nx_edges_def by (rule distinct_edges_of) (simp_all add: wf_graph_def)

lemma count_list_distinct: "distinct xs \<Longrightarrow> x \<in> set xs \<Longrightarrow> count_list xs x = 1"
  by (induction xs) auto

lemma wf_adj_lookup:
  "wf_graph g \<Longrightarrow> map_of (adj g) u = Some nbrs \<longleftrightarrow> (u, nbrs) \<in> set (adj g)"
  by (simp add: wf_graph_def)

lemma wf_distinct_succ_keys: "wf_graph g \<Longrightarrow> distinct (succ_keys g u)"
proof (cases "map_of (adj g) u")
  case None
  then show ?thesis by (simp add: succ_keys_def)
next
  case (Some nbrs)
  assume wf: "wf_graph g"
  with Some have "(u, nbrs) \<in> set (adj g)" by (simp add: wf_adj_lookup)
  with wf have "distinct (map fst nbrs)" by (auto simp: wf_graph_def)
  with Some show ?thesis by (simp add: succ_keys_def)
qed

lemma nx_edges_iff_succ_keys:
  assumes "wf_graph g"
  shows "(u, v) \<in> set (nx_edges g) \<longleftrightarrow> v \<in> set (succ_keys g u)"
proof (cases "map_of (adj g) u")
  case None
  then have "\<And>nbrs. (u, nbrs) \<notin> set (adj g)"
    by (simp add: wf_adj_lookup[OF assms, symmetric])
  with None show ?thesis
    by (simp add: set_nx_edges succ_keys_def)
next
  case (Some d)
  then have "\<And>nbrs. (u, nbrs) \<in> set (adj g) \<longleftrightarrow> nbrs = d"
    by (auto simp: wf_adj_lookup[OF assms, symmetric])
  with Some show ?thesis
    by (simp add: set_nx_edges succ_keys_def)
qed

lemma get_neighbors_succ_keys:
  "wf_graph g \<Longrightarrow> n \<in> node_set g \<Longrightarrow> get_neighbors g n = Inr (succ_keys g n)"
  using adj_present_iff[of g n]
  by (auto simp: get_neighbors_def succ_keys_def split: option.splits)

lemma adj_after_nx_add_edge:
  "\<exists>nbrs. map_of (adj (nx_add_edge g u v w)) u = Some (AList.update v w nbrs)"
proof -
  define g2 where "g2 = nx_ensure_node (nx_ensure_node g u) v"
  have "map_of (adj g2) u \<noteq> None"
    unfolding g2_def by (intro adj_nx_ensure_node_other adj_nx_ensure_node_same)
  then obtain d where d: "map_of (adj g2) u = Some d"
    by auto
  have "adj (nx_add_edge g u v w) = AList.map_entry u (AList.update v w) (adj g2)"
    by (simp add: nx_add_edge_def g2_def Let_def)
  then have "map_of (adj (nx_add_edge g u v w)) u = Some (AList.update v w d)"
    by (simp add: map_of_map_entry d)
  then show ?thesis ..
qed

lemma get_edge_weight_nx_add_edge: "get_edge_weight (nx_add_edge g u v w) u v = Inr w"
proof -
  from adj_after_nx_add_edge[of g u v w] obtain nbrs where
    "map_of (adj (nx_add_edge g u v w)) u = Some (AList.update v w nbrs)" ..
  then show ?thesis
    by (simp add: get_edge_weight_def update_conv')
qed

lemma succ_keys_after_nx_add_edge: "v \<in> set (succ_keys (nx_add_edge g u v w) u)"
  by (simp add: succ_keys_nx_add_edge)

lemma node_set_nx_add_edge:
  assumes "wf_graph g"
  shows "node_set (nx_add_edge g u v w) = insert u (insert v (node_set g))"
proof -
  have "n \<in> node_set (nx_add_edge g u v w) \<longleftrightarrow> n \<in> insert u (insert v (node_set g))" for n
    using nodes_nx_add_edge[OF assms, of u v w n]
    by (auto simp: node_set_iff split: if_splits)
  then show ?thesis by blast
qed

section \<open>When saving succeeds\<close>

lemma get_heuristic_nx_add_edge:
  assumes "wf_graph g"
  shows "get_heuristic (nx_add_edge g u v w) n =
           (if (n = u \<or> n = v) \<and> n \<notin> node_set g then Inl (KeyError ''heuristic'')
            else get_heuristic g n)"
  by (simp add: get_heuristic_def nodes_nx_add_edge[OF assms])

lemma node_entries_fail:
  assumes "\<forall>k \<in> set ks. map_of (nodes g) k \<noteq> None" "\<exists>k \<in> set ks. map_of (nodes g) k = Some None"
  shows "node_entries g ks = Inl (KeyError ''heuristic'')"
  using assms
proof (induction ks)
  case Nil
  then show ?case by simp
next
  case (Cons k ks)
  show ?case
  proof (cases "map_of (nodes g) k = Some None")
    case True
    then show ?thesis by (simp add: get_heuristic_def)
  next
    case False
    with Cons.prems(1) obtain h where h: "map_of (nodes g) k = Some (Some h)"
      by (cases "map_of (nodes g) k") auto
    from False Cons.prems(2) have "\<exists>k \<in> set ks. map_of (nodes g) k = Some None"
      by auto
    with Cons.IH Cons.prems(1) have "node_entries g ks = Inl (KeyError ''heuristic'')"
      by simp
    with h show ?thesis by (simp add: get_heuristic_def)
  qed
qed

lemma node_entries_succeed:
  assumes "\<forall>k \<in> set ks. \<exists>h. map_of (nodes g) k = Some (Some h)"
  shows "\<exists>js. node_entries g ks = Inr js"
  using assms
proof (induction ks)
  case Nil
  then show ?case by simp
next
  case (Cons k ks)
  then obtain h js where "map_of (nodes g) k = Some (Some h)" "node_entries g ks = Inr js"
    by auto
  then show ?case by (simp add: get_heuristic_def)
qed

lemma edge_entries_succeed:
  assumes "\<forall>e \<in> set es. \<exists>w. get_edge_weight g (fst e) (snd e) = Inr w"
  shows "\<exists>js. edge_entries g es = Inr js"
  using assms
proof (induction es)
  case Nil
  then show ?case by simp
next
  case (Cons e es)
  then obtain w js where "get_edge_weight g (fst e) (snd e) = Inr w" "edge_entries g es = Inr js"
    by auto
  then show ?case by simp
qed

lemma get_edge_weight_of_edge:
  assumes "wf_graph g" "e \<in> set (nx_edges g)"
  shows "\<exists>w. get_edge_weight g (fst e) (snd e) = Inr w"
proof -
  obtain u v where e: "e = (u, v)" by (cases e)
  with assms(2) obtain nbrs where n: "(u, nbrs) \<in> set (adj g)" "v \<in> fst ` set nbrs"
    by (auto simp: set_nx_edges)
  from n(1) have "map_of (adj g) u = Some nbrs"
    by (simp add: wf_adj_lookup[OF assms(1)])
  moreover from n(2) obtain w where "map_of nbrs v = Some w"
    by (cases "map_of nbrs v") (auto simp: map_of_eq_None_iff)
  ultimately show ?thesis
    by (simp add: e get_edge_weight_def)
qed

lemma save_to_file_fail:
  assumes "n \<in> node_set g" "map_of (nodes g) n = Some None"
  shows "save_to_file g = Inl (KeyError ''heuristic'')"
proof -
  have "\<forall>k \<in> set (map fst (nodes g)). map_of (nodes g) k \<noteq> None"
    by (simp add: map_of_eq_None_iff)
  moreover have "\<exists>k \<in> set (map fst (nodes g)). map_of (nodes g) k = Some None"
    using assms by (auto simp: node_set_def)
  ultimately have "node_entries g (map fst (nodes g)) = Inl (KeyError ''heuristic'')"
    by (rule node_entries_fail)
  then show ?thesis by (simp add: save_to_file_def)
qed

lemma save_to_file_succeed:
  assumes "wf_graph g" "\<forall>k \<in> node_set g. \<exists>h. map_of (nodes g) k = Some (Some h)"
  shows "\<exists>d. save_to_file g = Inr d"
proof -
  from assms(2) have "\<forall>k \<in> set (map fst (nodes g)). \<exists>h. map_of (nodes g) k = Some (Some h)"
    by (simp add: node_set_def)
  then obtain ns where ns: "node_entries g (map fst (nodes g)) = Inr ns"
    using node_entries_succeed by blast
  have "\<forall>e \<in> set (nx_edges g). \<exists>w. get_edge_weight g (fst e) (snd e) = Inr w"
    using get_edge_weight_of_edge[OF assms(1)] by blast
  then obtain es where es: "edge_entries g (nx_edges g) = Inr es"
    using edge_entries_succeed by blast
  show ?thesis by (simp add: save_to_file_def ns es)
qed

section \<open>Designations name nodes\<close>

lemma node_set_nx_add_node: "node_set (nx_add_node g n h) = insert n (node_set g)"
  by (auto simp: node_set_def nx_add_node_def dom_update)

lemma node_set_nx_ensure_node_mono: "node_set g \<subseteq> node_set (nx_ensure_node g n)"
  by (auto simp: node_set_def nx_ensure_node_def dom_update)

lemma node_set_nx_add_edge_mono: "node_set g \<subseteq> node_set (nx_add_edge g u v w)"
proof -
  have "nodes (nx_add_edge g u v w) = nodes (nx_ensure_node (nx_ensure_node g u) v)"
    by (simp add: nx_add_edge_def Let_def)
  then have "node_set (nx_add_edge g u v w) = node_set (nx_ensure_node (nx_ensure_node g u) v)"
    by (simp add: node_set_def)
  then show ?thesis
    using node_set_nx_ensure_node_mono[of g u]
          node_set_nx_ensure_node_mono[of "nx_ensure_node g u" v]
    by blast
qed

lemma designations_nx_add_node:
  "start_node (nx_add_node g n h) = start_node g \<and> goal_node (nx_add_node g n h) = goal_node g"
  by (simp add: nx_add_node_def)

lemma designations_nx_add_edge:
  "start_node (nx_add_edge g u v w) = start_node g \<and>
   goal_node (nx_add_edge g u v w) = goal_node g"
  by (simp add: nx_add_edge_def nx_ensure_node_def Let_def)

lemma designations_ok_mono:
  assumes "designations_ok g" "node_set g \<subseteq> node_set g'"
    "start_node g' = start_node g" "goal_node g' = goal_node g"
  shows "designations_ok g'"
  using assms by (auto simp: designations_ok_def split: option.splits)

lemma designations_ok_add_node: "designations_ok g \<Longrightarrow> designations_ok (add_node g n h)"
  unfolding add_node_def
  by (erule designations_ok_mono) (auto simp: node_set_nx_add_node designations_nx_add_node)

lemma designations_ok_add_edge: "designations_ok g \<Longrightarrow> designations_ok (add_edge g u v w)"
  unfolding add_edge_def
  using node_set_nx_add_edge_mono[of g u v w]
  by (erule_tac designations_ok_mono) (auto simp: designations_nx_add_edge)

lemma node_set_designation_update:
  "node_set (g\<lparr>start_node := x\<rparr>) = node_set g" "node_set (g\<lparr>goal_node := x\<rparr>) = node_set g"
  by (simp_all add: node_set_def)

lemma set_start_node_Inr:
  "set_start_node g n = Inr g' \<longleftrightarrow> n \<in> node_set g \<and> g' = g\<lparr>start_node := Some n\<rparr>"
  by (auto simp: set_start_node_def node_set_iff)

lemma set_goal_node_Inr:
  "set_goal_node g n = Inr g' \<longleftrightarrow> n \<in> node_set g \<and> g' = g\<lparr>goal_node := Some n\<rparr>"
  by (auto simp: set_goal_node_def node_set_iff)

lemma designations_ok_set_start_node:
  "designations_ok g \<Longrightarrow> set_start_node g n = Inr g' \<Longrightarrow> designations_ok g'"
  by (auto simp: set_start_node_Inr designations_ok_def node_set_designation_update
           split: option.splits)

lemma designations_ok_set_goal_node:
  "designations_ok g \<Longrightarrow> set_goal_node g n = Inr g' \<Longrightarrow> designations_ok g'"
  by (auto simp: set_goal_node_Inr designations_ok_def node_set_designation_update
           split: option.splits)

lemma load_nodes_Cons_Inr:
  "load_nodes g (x # xs) = Inr g' \<Longrightarrow> \<exists>n h. load_nodes (add_node g n h) xs = Inr g'"
  by (auto split: sum.splits)

lemma load_edges_Cons_Inr:
  "load_edges g (x # xs) = Inr g' \<Longrightarrow> \<exists>u v w. load_edges (add_edge g u v w) xs = Inr g'"
  by (auto split: sum.splits)

lemma designations_ok_load_nodes:
  "designations_ok g \<Longrightarrow> load_nodes g xs = Inr g' \<Longrightarrow> designations_ok g'"
proof (induction xs arbitrary: g)
  case Nil
  then show ?case by simp
next
  case (Cons x xs)
  from load_nodes_Cons_Inr[OF Cons.prems(2)]
  obtain n h where "load_nodes (add_node g n h) xs = Inr g'" by blast
  with Cons.IH[OF designations_ok_add_node[OF Cons.prems(1)]] show ?case .
qed

lemma designations_ok_load_edges:
  "designations_ok g \<Longrightarrow> load_edges g xs = Inr g' \<Longrightarrow> designations_ok g'"
proof (induction xs arbitrary: g)
  case Nil
  then show ?case by simp
next
  case (Cons x xs)
  from load_edges_Cons_Inr[OF Cons.prems(2)]
  obtain u v w where "load_edges (add_edge g u v w) xs = Inr g'" by blast
  with Cons.IH[OF designations_ok_add_edge[OF Cons.prems(1)]] show ?case .
qed

lemma designations_ok_set_loaded:
  assumes "\<And>n. setter g n = Inr g' \<Longrightarrow> designations_ok g'"
    and "set_loaded setter g y = Inr g'"
  shows "designations_ok g'"
  using assms by (cases y) auto

lemma designations_ok_load_designation:
  assumes setter: "\<And>g n g'. designations_ok g \<Longrightarrow> setter g n = Inr g' \<Longrightarrow> designations_ok g'"
    and "designations_ok g" "load_designation setter d k g = Inr g'"
  shows "designations_ok g'"
proof (cases "g' = g")
  case True
  with assms show ?thesis by simp
next
  case False
  with assms(3) obtain y where "set_loaded setter g y = Inr g'"
    by (auto simp: load_designation_def split: sum.splits if_splits)
  with setter[OF assms(2)] show ?thesis
    by (rule designations_ok_set_loaded)
qed

lemma designations_ok_Graph_init: "designations_ok Graph_init"
  by (simp add: designations_ok_def Graph_init_def)

lemma load_from_file_Inr:
  "load_from_file d = Inr g' \<Longrightarrow>
     \<exists>ns node_list g1 es edge_list g2 g3.
       subscript d ''nodes'' = Inr ns \<and> py_iter ns = Inr node_list \<and>
       load_nodes Graph_init node_list = Inr g1 \<and>
       subscript d ''edges'' = Inr es \<and> py_iter es = Inr edge_list \<and>
       load_edges g1 edge_list = Inr g2 \<and>
       load_designation set_start_node d ''start_node'' g2 = Inr g3 \<and>
       load_designation set_goal_node d ''goal_node'' g3 = Inr g'"
  unfolding load_from_file_def
  by (simp split: sum.splits)

lemma designations_ok_load_from_file:
  assumes "load_from_file d = Inr g'"
  shows "designations_ok g'"
proof -
  from load_from_file_Inr[OF assms] obtain node_list g1 edge_list g2 g3 where
    l1: "load_nodes Graph_init node_list = Inr g1" and
    l2: "load_edges g1 edge_list = Inr g2" and
    l3: "load_designation set_start_node d ''start_node'' g2 = Inr g3" and
    l4: "load_designation set_goal_node d ''goal_node'' g3 = Inr g'"
    by blast
  have "designations_ok g1"
    using designations_ok_Graph_init l1 by (rule designations_ok_load_nodes)
  then have "designations_ok g2"
    using l2 by (rule designations_ok_load_edges)
  then have "designations_ok g3"
    using l3 by (rule designations_ok_load_designation[where setter = set_start_node, rotated])
               (rule designations_ok_set_start_node)
  then show ?thesis
    using l4 by (rule designations_ok_load_designation[where setter = set_goal_node, rotated])
               (rule designations_ok_set_goal_node)
qed

lemma designations_ok_perform: "designations_ok g \<Longrightarrow> designations_ok (perform g c)"
proof (cases c)
  case (AddNode n h)
  assume "designations_ok g"
  then show ?thesis by (simp add: AddNode designations_ok_add_node)
next
  case (AddEdge u v w)
  assume "designations_ok g"
  then show ?thesis by (simp add: AddEdge designations_ok_add_edge)
next
  case (SetStartNode n)
  assume "designations_ok g"
  then show ?thesis
    using designations_ok_set_start_node[of g n]
    by (cases "set_start_node g n") (simp_all add: SetStartNode)
next
  case (SetGoalNode n)
  assume "designations_ok g"
  then show ?thesis
    using designations_ok_set_goal_node[of g n]
    by (cases "set_goal_node g n") (simp_all add: SetGoalNode)
qed

lemma designations_ok_foldl_perform:
  "designations_ok g \<Longrightarrow> designations_ok (foldl perform g cs)"
  by (induction cs arbitrary: g) (simp_all add: designations_ok_perform)

lemma designations_ok_run: "designations_ok (run cs)"
  by (simp add: run_def designations_ok_foldl_perform designations_ok_Graph_init)

section \<open>Saving and loading again\<close>

lemma nx_edges_weighted: "nx_edges g = map (\<lambda>e. (fst e, fst (snd e))) (weighted_edges (adj g))"
  by (simp add: nx_edges_def weighted_edges_def map_concat comp_def case_prod_unfold)

lemma node_entries_exact:
  assumes "\<forall>e \<in> set ns. map_of (nodes g) (fst e) = Some (Some (snd e))"
  shows "node_entries g (map fst ns) = Inr (map node_json ns)"
  using assms by (induction ns) (simp_all add: get_heuristic_def node_json_def)

lemma edge_entries_exact:
  assumes "\<forall>e \<in> set es. get_edge_weight g (fst e) (fst (snd e)) = Inr (snd (snd e))"
  shows "edge_entries g (map (\<lambda>e. (fst e, fst (snd e))) es) = Inr (map edge_json es)"
  using assms by (induction es) (simp_all add: edge_json_def)

lemma weighted_edge_lookup:
  assumes "wf_graph g" "e \<in> set (weighted_edges (adj g))"
  shows "get_edge_weight g (fst e) (fst (snd e)) = Inr (snd (snd e))"
proof -
  from assms(2) obtain u nbrs v w where
    e: "e = (u, v, w)" and n: "(u, nbrs) \<in> set (adj g)" "(v, w) \<in> set nbrs"
    by (auto simp: weighted_edges_def)
  from n(1) have 1: "map_of (adj g) u = Some nbrs"
    by (simp add: wf_adj_lookup[OF assms(1)])
  from assms(1) n(1) have "distinct (map fst nbrs)"
    by (auto simp: wf_graph_def)
  with n(2) have "map_of nbrs v = Some w" by simp
  with 1 show ?thesis by (simp add: e get_edge_weight_def)
qed

lemma load_nodes_node_json:
  "load_nodes g (map node_json ns) = Inr (foldl (\<lambda>g e. add_node g (fst e) (snd e)) g ns)"
  by (induction ns arbitrary: g) (simp_all add: node_json_def)

lemma load_edges_edge_json:
  "load_edges g (map edge_json es)
     = Inr (foldl (\<lambda>g e. add_edge g (fst e) (fst (snd e)) (snd (snd e))) g es)"
  by (induction es arbitrary: g) (simp_all add: edge_json_def)

lemma update_new_key: "k \<notin> fst ` set xs \<Longrightarrow> AList.update k v xs = xs @ [(k, v)]"
  by (induction xs) auto

lemma map_entry_middle:
  "k \<notin> fst ` set P \<Longrightarrow> AList.map_entry k f (P @ (k, x) # S) = P @ (k, f x) # S"
  by (induction P) auto

lemma rebuild_nodes:
  assumes "nodes g = P" "adj g = map (\<lambda>n. (n, [])) (map fst P)"
    and "distinct (map fst P @ map fst ns)"
  shows "foldl (\<lambda>g e. add_node g (fst e) (snd e)) g ns
           = g\<lparr>nodes := P @ map (\<lambda>e. (fst e, Some (snd e))) ns,
               adj := map (\<lambda>n. (n, [])) (map fst P @ map fst ns)\<rparr>"
  using assms
proof (induction ns arbitrary: g P)
  case Nil
  then show ?case by simp
next
  case (Cons e ns)
  obtain n h where e: "e = (n, h)" by (cases e)
  from Cons.prems(3) have fresh: "n \<notin> fst ` set P"
    by (auto simp: e)
  then have "map_of (adj g) n = None"
    by (simp add: Cons.prems(2) map_of_eq_None_iff image_image)
  then have step: "add_node g n h
      = g\<lparr>nodes := P @ [(n, Some h)], adj := map (\<lambda>n. (n, [])) (map fst (P @ [(n, Some h)]))\<rparr>"
    using fresh
    by (simp add: add_node_def nx_add_node_def Cons.prems(1,2) update_new_key image_image)
  have "foldl (\<lambda>g e. add_node g (fst e) (snd e)) (add_node g n h) ns
          = (add_node g n h)\<lparr>nodes := (P @ [(n, Some h)]) @ map (\<lambda>e. (fst e, Some (snd e))) ns,
               adj := map (\<lambda>n. (n, [])) (map fst (P @ [(n, Some h)]) @ map fst ns)\<rparr>"
    by (rule Cons.IH) (use Cons.prems(3) in \<open>simp_all add: step e\<close>)
  then show ?case
    by (simp add: e step)
qed

lemma nx_add_edge_present:
  assumes "map_of (adj g) u \<noteq> None" "map_of (adj g) v \<noteq> None"
  shows "nx_add_edge g u v w = g\<lparr>adj := AList.map_entry u (AList.update v w) (adj g)\<rparr>"
proof -
  have 1: "nx_ensure_node g u = g"
    using assms(1) by (auto simp: nx_ensure_node_def)
  have 2: "nx_ensure_node g v = g"
    using assms(2) by (auto simp: nx_ensure_node_def)
  show ?thesis
    by (simp add: nx_add_edge_def Let_def 1 2)
qed

lemma rebuild_inner:
  assumes "adj g = P @ (u, d0) # S" "u \<notin> fst ` set P"
    and "distinct (map fst (d0 @ d1))" "fst ` set d1 \<subseteq> fst ` set (P @ (u, d0) # S)"
  shows "foldl (\<lambda>g e. add_edge g u (fst e) (snd e)) g d1 = g\<lparr>adj := P @ (u, d0 @ d1) # S\<rparr>"
  using assms
proof (induction d1 arbitrary: g d0)
  case Nil
  then show ?case by simp
next
  case (Cons e d1)
  obtain v w where e: "e = (v, w)" by (cases e)
  have pu: "map_of (adj g) u \<noteq> None"
    by (simp add: Cons.prems(1) map_of_eq_None_iff)
  have "v \<in> fst ` set (P @ (u, d0) # S)"
    using Cons.prems(4) by (simp add: e)
  then have "v \<in> fst ` set (adj g)"
    by (simp only: Cons.prems(1))
  then have pv: "map_of (adj g) v \<noteq> None"
    by (simp add: map_of_eq_None_iff)
  from Cons.prems(3) have fresh: "v \<notin> fst ` set d0"
    by (auto simp: e)
  have step: "add_edge g u v w = g\<lparr>adj := P @ (u, d0 @ [(v, w)]) # S\<rparr>"
    using fresh
    by (simp add: add_edge_def nx_add_edge_present[OF pu pv] Cons.prems(1)
                  map_entry_middle[OF Cons.prems(2)] update_new_key)
  have "foldl (\<lambda>g e. add_edge g u (fst e) (snd e)) (add_edge g u v w) d1
          = (add_edge g u v w)\<lparr>adj := P @ (u, (d0 @ [(v, w)]) @ d1) # S\<rparr>"
  proof (rule Cons.IH)
    show "adj (add_edge g u v w) = P @ (u, d0 @ [(v, w)]) # S" by (simp add: step)
    show "u \<notin> fst ` set P" by (rule Cons.prems(2))
    show "distinct (map fst ((d0 @ [(v, w)]) @ d1))" using Cons.prems(3) by (simp add: e)
    show "fst ` set d1 \<subseteq> fst ` set (P @ (u, d0 @ [(v, w)]) # S)"
      using Cons.prems(4) by auto
  qed
  then show ?case by (simp add: e step)
qed

lemma weighted_edges_Cons:
  "weighted_edges (entry # R) = map (\<lambda>e. (fst entry, fst e, snd e)) (snd entry) @ weighted_edges R"
  by (simp add: weighted_edges_def)

lemma rebuild_edges:
  assumes "adj g = P @ map (\<lambda>entry. (fst entry, [])) R" "distinct (map fst (P @ R))"
    and "\<forall>entry \<in> set R. distinct (map fst (snd entry)) \<and>
                           fst ` set (snd entry) \<subseteq> fst ` set (P @ R)"
  shows "foldl (\<lambda>g e. add_edge g (fst e) (fst (snd e)) (snd (snd e))) g (weighted_edges R)
           = g\<lparr>adj := P @ R\<rparr>"
  using assms
proof (induction R arbitrary: g P)
  case Nil
  then show ?case by (simp add: weighted_edges_def)
next
  case (Cons entry R)
  obtain u d where entry: "entry = (u, d)" by (cases entry)
  let ?S = "map (\<lambda>entry. (fst entry, [])) R"
  let ?f = "\<lambda>g e. add_edge g (fst e) (fst (snd e)) (snd (snd e))"
  have adj: "adj g = P @ (u, []) # ?S"
    by (simp add: Cons.prems(1) entry)
  have fresh: "u \<notin> fst ` set P"
    using Cons.prems(2) by (auto simp: entry)
  have "fst ` set d \<subseteq> fst ` set (P @ (u, d) # R)"
    using Cons.prems(3) by (simp add: entry)
  moreover have "fst ` set (P @ (u, []) # ?S) = fst ` set (P @ (u, d) # R)"
    by (simp add: image_Un image_image)
  ultimately have d2: "fst ` set d \<subseteq> fst ` set (P @ (u, []) # ?S)"
    by (simp only:)
  have d1: "distinct (map fst ([] @ d))"
    using Cons.prems(3) by (simp add: entry)
  note d = d1 d2
  have inner: "foldl (\<lambda>g e. add_edge g u (fst e) (snd e)) g d = g\<lparr>adj := P @ (u, [] @ d) # ?S\<rparr>"
    by (rule rebuild_inner[OF adj fresh d])
  define g1 where "g1 = g\<lparr>adj := (P @ [(u, d)]) @ ?S\<rparr>"
  have first: "foldl ?f g (map (\<lambda>e. (u, fst e, snd e)) d) = g1"
    using inner by (simp add: foldl_map g1_def)
  have rest: "foldl ?f g1 (weighted_edges R) = g1\<lparr>adj := (P @ [(u, d)]) @ R\<rparr>"
  proof (rule Cons.IH)
    show "adj g1 = (P @ [(u, d)]) @ ?S" by (simp add: g1_def)
    show "distinct (map fst ((P @ [(u, d)]) @ R))" using Cons.prems(2) by (simp add: entry)
    show "\<forall>entry \<in> set R. distinct (map fst (snd entry)) \<and>
            fst ` set (snd entry) \<subseteq> fst ` set ((P @ [(u, d)]) @ R)"
      using Cons.prems(3) by (auto simp: entry)
  qed
  have "weighted_edges (entry # R) = map (\<lambda>e. (u, fst e, snd e)) d @ weighted_edges R"
    by (simp add: weighted_edges_Cons entry)
  then have "foldl ?f g (weighted_edges (entry # R)) = foldl ?f g1 (weighted_edges R)"
    by (simp only: foldl_append first)
  also have "\<dots> = g1\<lparr>adj := (P @ [(u, d)]) @ R\<rparr>"
    by (rule rest)
  also have "\<dots> = g\<lparr>adj := P @ entry # R\<rparr>"
    by (simp add: g1_def entry)
  finally show ?case .
qed

lemma nodes_with_heuristics:
  assumes "all_heuristics g"
  shows "map (\<lambda>e. (fst e, Some (snd e))) (map (\<lambda>e. (fst e, the (snd e))) (nodes g)) = nodes g"
proof -
  have "(fst e, Some (the (snd e))) = e" if "e \<in> set (nodes g)" for e
    using that assms by (cases e) (auto simp: all_heuristics_def)
  then show ?thesis
    by (simp add: comp_def map_idI)
qed

lemma save_to_file_exact:
  assumes "wf_graph g" "all_heuristics g"
  shows "save_to_file g =
           Inr (JObj [(''nodes'', JList (map node_json (map (\<lambda>e. (fst e, the (snd e))) (nodes g)))),
                      (''edges'', JList (map edge_json (weighted_edges (adj g)))),
                      (''start_node'', json_of_designation (start_node g)),
                      (''goal_node'', json_of_designation (goal_node g))])"
proof -
  let ?ns = "map (\<lambda>e. (fst e, the (snd e))) (nodes g)"
  have keys: "map fst ?ns = map fst (nodes g)"
    by (simp add: comp_def)
  have "map_of (nodes g) (fst e) = Some (Some (snd e))" if "e \<in> set ?ns" for e
  proof -
    from that obtain n a where na: "(n, a) \<in> set (nodes g)" "e = (n, the a)"
      by auto
    with assms(2) have "a = Some (the a)"
      by (auto simp: all_heuristics_def)
    moreover from assms(1) na(1) have "map_of (nodes g) n = Some a"
      by (simp add: wf_graph_def)
    ultimately show ?thesis by (simp add: na(2))
  qed
  then have "node_entries g (map fst ?ns) = Inr (map node_json ?ns)"
    by (intro node_entries_exact) blast
  then have n: "node_entries g (map fst (nodes g)) = Inr (map node_json ?ns)"
    by (simp only: keys)
  have "edge_entries g (map (\<lambda>e. (fst e, fst (snd e))) (weighted_edges (adj g)))
          = Inr (map edge_json (weighted_edges (adj g)))"
    by (intro edge_entries_exact ballI weighted_edge_lookup[OF assms(1)])
  then have e: "edge_entries g (nx_edges g) = Inr (map edge_json (weighted_edges (adj g)))"
    by (simp only: nx_edges_weighted)
  show ?thesis
    by (simp add: save_to_file_def n e)
qed

lemma load_nodes_saved:
  assumes "wf_graph g" "all_heuristics g"
  shows "load_nodes Graph_init (map node_json (map (\<lambda>e. (fst e, the (snd e))) (nodes g)))
           = Inr \<lparr>nodes = nodes g, adj = map (\<lambda>entry. (fst entry, [])) (adj g),
                  start_node = None, goal_node = None\<rparr>"
proof -
  let ?ns = "map (\<lambda>e. (fst e, the (snd e))) (nodes g)"
  have keys: "map fst ?ns = map fst (nodes g)"
    by (simp add: comp_def)
  have "distinct (map fst (nodes g))"
    using assms(1) by (simp add: wf_graph_def)
  then have "distinct (map fst ?ns)"
    by (simp only: keys)
  then have "distinct (map fst ([] :: (string \<times> json option) list) @ map fst ?ns)"
    by (simp only: list.map append_Nil)
  from rebuild_nodes[of Graph_init "[]" ?ns, OF _ _ this]
  have "foldl (\<lambda>g e. add_node g (fst e) (snd e)) Graph_init ?ns
          = Graph_init\<lparr>nodes := map (\<lambda>e. (fst e, Some (snd e))) ?ns,
                        adj := map (\<lambda>n. (n, [])) (map fst ?ns)\<rparr>"
    by (simp add: Graph_init_def)
  also have "map (\<lambda>e. (fst e, Some (snd e))) ?ns = nodes g"
    by (rule nodes_with_heuristics[OF assms(2)])
  also have "map (\<lambda>n. (n, [])) (map fst ?ns) = map (\<lambda>entry. (fst entry, [])) (adj g)"
  proof -
    have "map fst ?ns = map fst (adj g)"
      using assms(1) by (simp add: keys wf_graph_def)
    then show ?thesis by (simp add: comp_def)
  qed
  finally have "foldl (\<lambda>g e. add_node g (fst e) (snd e)) Graph_init ?ns
          = Graph_init\<lparr>nodes := nodes g, adj := map (\<lambda>entry. (fst entry, [])) (adj g)\<rparr>" .
  then have "load_nodes Graph_init (map node_json ?ns)
          = Inr (Graph_init\<lparr>nodes := nodes g, adj := map (\<lambda>entry. (fst entry, [])) (adj g)\<rparr>)"
    by (simp only: load_nodes_node_json)
  also have "Graph_init\<lparr>nodes := nodes g, adj := map (\<lambda>entry. (fst entry, [])) (adj g)\<rparr>
          = \<lparr>nodes = nodes g, adj = map (\<lambda>entry. (fst entry, [])) (adj g),
             start_node = None, goal_node = None\<rparr>"
    by (simp add: Graph_init_def)
  finally show ?thesis .
qed

lemma load_edges_saved:
  assumes "wf_graph g"
  shows "load_edges \<lparr>nodes = nodes g, adj = map (\<lambda>entry. (fst entry, [])) (adj g),
                      start_node = None, goal_node = None\<rparr>
           (map edge_json (weighted_edges (adj g)))
           = Inr \<lparr>nodes = nodes g, adj = adj g, start_node = None, goal_node = None\<rparr>"
proof -
  let ?g1 = "\<lparr>nodes = nodes g, adj = map (\<lambda>entry. (fst entry, [])) (adj g),
              start_node = None, goal_node = None\<rparr>"
  have same: "fst ` set (adj g) = fst ` set (nodes g)"
    by (rule wf_same_keys[OF assms])
  have "foldl (\<lambda>g e. add_edge g (fst e) (fst (snd e)) (snd (snd e))) ?g1 (weighted_edges (adj g))
          = ?g1\<lparr>adj := [] @ adj g\<rparr>"
  proof (rule rebuild_edges)
    show "adj ?g1 = [] @ map (\<lambda>entry. (fst entry, [])) (adj g)" by simp
    show "distinct (map fst ([] @ adj g))" using assms by (simp add: wf_graph_def)
    show "\<forall>entry \<in> set (adj g). distinct (map fst (snd entry)) \<and>
            fst ` set (snd entry) \<subseteq> fst ` set ([] @ adj g)"
      using assms same by (simp add: wf_graph_def)
  qed
  then show ?thesis
    by (simp add: load_edges_edge_json)
qed

lemma load_designation_saved_start:
  assumes "case d of None \<Rightarrow> True | Some s \<Rightarrow> s \<in> node_set g2"
    and "map_of doc ''start_node'' = Some (json_of_designation d)"
  shows "load_designation set_start_node (JObj doc) ''start_node'' g2
           = Inr (if drop_empty d = None then g2 else g2\<lparr>start_node := drop_empty d\<rparr>)"
  using assms
  by (cases d)
     (auto simp: load_designation_def json_of_designation_def drop_empty_def
                 set_start_node_def node_set_iff)

lemma load_designation_saved_goal:
  assumes "case d of None \<Rightarrow> True | Some s \<Rightarrow> s \<in> node_set g2"
    and "map_of doc ''goal_node'' = Some (json_of_designation d)"
  shows "load_designation set_goal_node (JObj doc) ''goal_node'' g2
           = Inr (if drop_empty d = None then g2 else g2\<lparr>goal_node := drop_empty d\<rparr>)"
  using assms
  by (cases d)
     (auto simp: load_designation_def json_of_designation_def drop_empty_def
                 set_goal_node_def node_set_iff)

lemma load_from_file_steps:
  assumes "subscript d ''nodes'' = Inr ns" "py_iter ns = Inr node_list"
    and "load_nodes Graph_init node_list = Inr g1"
    and "subscript d ''edges'' = Inr es" "py_iter es = Inr edge_list"
    and "load_edges g1 edge_list = Inr g2"
    and "load_designation set_start_node d ''start_node'' g2 = Inr g3"
    and "load_designation set_goal_node d ''goal_node'' g3 = Inr g4"
  shows "load_from_file d = Inr g4"
  using assms by (simp add: load_from_file_def)

text \<open>
  For every graph of the shape above whose nodes all carry a heuristic and whose
  designations name nodes, \<^verbatim>\<open>save_to_file\<close> succeeds and \<^verbatim>\<open>load_from_file\<close> on what was
  written returns the same graph, with the same node dictionary and the same successor
  dictionaries in the same order, except that a start or a goal that is the empty string
  comes back unset.
\<close>

lemma roundtrip_up_to_empty_designation:
  assumes "wf_graph g" "all_heuristics g" "designations_ok g"
  shows "\<exists>d. save_to_file g = Inr d \<and>
             load_from_file d = Inr (g\<lparr>start_node := drop_empty (start_node g),
                                        goal_node := drop_empty (goal_node g)\<rparr>)"
proof -
  let ?doc = "[(''nodes'', JList (map node_json (map (\<lambda>e. (fst e, the (snd e))) (nodes g)))),
              (''edges'', JList (map edge_json (weighted_edges (adj g)))),
              (''start_node'', json_of_designation (start_node g)),
              (''goal_node'', json_of_designation (goal_node g))]"
  let ?g2 = "\<lparr>nodes = nodes g, adj = adj g, start_node = None, goal_node = None\<rparr>"
  let ?g3 = "if drop_empty (start_node g) = None then ?g2
             else ?g2\<lparr>start_node := drop_empty (start_node g)\<rparr>"
  have save: "save_to_file g = Inr (JObj ?doc)"
    by (rule save_to_file_exact[OF assms(1,2)])
  have s: "load_designation set_start_node (JObj ?doc) ''start_node'' ?g2 = Inr ?g3"
    by (rule load_designation_saved_start)
       (use assms(3) in \<open>auto simp: designations_ok_def node_set_def split: option.splits\<close>)
  have t: "load_designation set_goal_node (JObj ?doc) ''goal_node'' ?g3
             = Inr (if drop_empty (goal_node g) = None then ?g3
                    else ?g3\<lparr>goal_node := drop_empty (goal_node g)\<rparr>)"
    by (rule load_designation_saved_goal)
       (use assms(3) in \<open>auto simp: designations_ok_def node_set_def split: option.splits\<close>)
  have final: "(if drop_empty (goal_node g) = None then ?g3
                else ?g3\<lparr>goal_node := drop_empty (goal_node g)\<rparr>)
                 = g\<lparr>start_node := drop_empty (start_node g),
                      goal_node := drop_empty (goal_node g)\<rparr>"
    by (cases g) auto
  have "load_from_file (JObj ?doc)
          = Inr (if drop_empty (goal_node g) = None then ?g3
                 else ?g3\<lparr>goal_node := drop_empty (goal_node g)\<rparr>)"
  proof (rule load_from_file_steps)
    show "subscript (JObj ?doc) ''nodes''
            = Inr (JList (map node_json (map (\<lambda>e. (fst e, the (snd e))) (nodes g))))"
      by simp
    show "py_iter (JList (map node_json (map (\<lambda>e. (fst e, the (snd e))) (nodes g))))
            = Inr (map node_json (map (\<lambda>e. (fst e, the (snd e))) (nodes g)))"
      by simp
    show "load_nodes Graph_init (map node_json (map (\<lambda>e. (fst e, the (snd e))) (nodes g)))
            = Inr \<lparr>nodes = nodes g, adj = map (\<lambda>entry. (fst entry, [])) (adj g),
                   start_node = None, goal_node = None\<rparr>"
      by (rule load_nodes_saved[OF assms(1,2)])
    show "subscript (JObj ?doc) ''edges'' = Inr (JList (map edge_json (weighted_edges (adj g))))"
      by simp
    show "py_iter (JList (map edge_json (weighted_edges (adj g))))
            = Inr (map edge_json (weighted_edges (adj g)))"
      by simp
    show "load_edges \<lparr>nodes = nodes g, adj = map (\<lambda>entry. (fst entry, [])) (adj g),
                       start_node = None, goal_node = None\<rparr>
            (map edge_json (weighted_edges (adj g))) = Inr ?g2"
      by (rule load_edges_saved[OF assms(1)])
    show "load_designation set_start_node (JObj ?doc) ''start_node'' ?g2 = Inr ?g3"
      by (rule s)
    show "load_designation set_goal_node (JObj ?doc) ''goal_node'' ?g3
            = Inr (if drop_empty (goal_node g) = None then ?g3
                   else ?g3\<lparr>goal_node := drop_empty (goal_node g)\<rparr>)"
      by (rule t)
  qed
  with save final show ?thesis by simp
qed

lemma run_example:
  "run [AddNode [] (JInt 0), AddNode ''A'' (JInt 1), AddEdge [] ''A'' (JInt 2),
        SetStartNode [], SetGoalNode ''A'']
     = \<lparr>nodes = [([], Some (JInt 0)), (''A'', Some (JInt 1))],
        adj = [([], [(''A'', JInt 2)]), (''A'', [])],
        start_node = Some [], goal_node = Some ''A''\<rparr>"
  by (simp add: run_def add_node_def add_edge_def nx_add_node_def nx_add_edge_def
                nx_ensure_node_def Graph_init_def set_start_node_def set_goal_node_def)

section \<open>Setting the start and the goal\<close>

text \<open>
  Claim C4. For every identifier, \<^verbatim>\<open>set_start_node\<close> (and likewise \<^verbatim>\<open>set_goal_node\<close>)
  records the identifier as the start (goal) when it is in the node set, changing nothing
  else; when it is not in the node set the call raises (\<^verbatim>\<open>ValueError\<close> is the exception
  the code uses for an unknown node) and the object is as it was before the call.
\<close>

theorem set_designation_checked:
  "(n \<in> node_set g \<longrightarrow>
      set_start_node g n = Inr (g\<lparr>start_node := Some n\<rparr>) \<and>
      set_goal_node g n = Inr (g\<lparr>goal_node := Some n\<rparr>)) \<and>
   (n \<notin> node_set g \<longrightarrow>
      set_start_node g n = Inl ValueError \<and> perform g (SetStartNode n) = g \<and>
      set_goal_node g n = Inl ValueError \<and> perform g (SetGoalNode n) = g)"
  by (simp add: set_start_node_def set_goal_node_def node_set_def map_of_eq_None_iff)

theorem set_designation_checked_witness:
  "(''A'' \<in> node_set (add_node (Graph_init :: int graph) ''A'' 5) \<and>
    set_start_node (add_node (Graph_init :: int graph) ''A'' 5) ''A''
      = Inr \<lparr>nodes = [(''A'', Some 5)], adj = [(''A'', [])],
             start_node = Some ''A'', goal_node = None\<rparr> \<and>
    set_goal_node (add_node (Graph_init :: int graph) ''A'' 5) ''A''
      = Inr \<lparr>nodes = [(''A'', Some 5)], adj = [(''A'', [])],
             start_node = None, goal_node = Some ''A''\<rparr>) \<and>
   (''B'' \<notin> node_set (add_node (Graph_init :: int graph) ''A'' 5) \<and>
    set_start_node (add_node (Graph_init :: int graph) ''A'' 5) ''B'' = Inl ValueError \<and>
    set_goal_node (add_node (Graph_init :: int graph) ''A'' 5) ''B'' = Inl ValueError)"
  using set_designation_checked [of "''A''" "add_node (Graph_init :: int graph) ''A'' 5"]
        set_designation_checked [of "''B''" "add_node (Graph_init :: int graph) ''A'' 5"]
  by (simp add: node_set_def add_node_def nx_add_node_def Graph_init_def)

section \<open>Loading a value without nodes\<close>

text \<open>
  Claim C5. For every persisted value that has no \<^verbatim>\<open>nodes\<close> key, \<^verbatim>\<open>load_from_file\<close>
  raises and returns no graph at all: \<^verbatim>\<open>KeyError('nodes')\<close> when the value is a dictionary,
  \<^verbatim>\<open>TypeError\<close> when it is anything else (these are the exceptions the code has for a
  malformed file).
\<close>

theorem load_without_nodes_fails:
  "\<not> has_key graph_data ''nodes'' \<Longrightarrow>
     load_from_file graph_data =
       Inl (case graph_data of JObj d \<Rightarrow> KeyError ''nodes'' | _ \<Rightarrow> TypeError)"
  by (cases graph_data) (simp_all add: load_from_file_def)

theorem load_without_nodes_fails_witness:
  "\<not> has_key (JObj [(''edges'', JList []), (''start_node'', JNull)]) ''nodes'' \<and>
   load_from_file (JObj [(''edges'', JList []), (''start_node'', JNull)])
     = Inl (KeyError ''nodes'')"
  using load_without_nodes_fails [of "JObj [(''edges'', JList []), (''start_node'', JNull)]"]
  by simp

section \<open>Reading a heuristic\<close>

text \<open>
  Claim C6, as the code has it. After any history of calls, \<^verbatim>\<open>get_heuristic\<close> on an
  identifier that \<^verbatim>\<open>add_node\<close> registered returns the heuristic most recently stored for
  it by \<^verbatim>\<open>add_node\<close> (and such an identifier is in the node set); on an identifier that
  is in the node set without ever having been passed to \<^verbatim>\<open>add_node\<close>, that is, one that
  only \<^verbatim>\<open>add_edge\<close> introduced, it raises \<^verbatim>\<open>KeyError('heuristic')\<close>; on an identifier
  that is not in the node set it raises \<^verbatim>\<open>KeyError\<close> with the identifier, the exception
  the code has for an unknown node.
\<close>

theorem get_heuristic_of_history:
  "(stored_heuristic cs n = Some h \<longrightarrow>
      n \<in> node_set (run cs) \<and> get_heuristic (run cs) n = Inr h) \<and>
   (n \<in> node_set (run cs) \<and> stored_heuristic cs n = None \<longrightarrow>
      get_heuristic (run cs) n = Inl (KeyError ''heuristic'')) \<and>
   (n \<notin> node_set (run cs) \<longrightarrow> get_heuristic (run cs) n = Inl (KeyError n))"
  by (auto simp: get_heuristic_def nodes_run node_set_iff split: option.splits if_splits)

theorem get_heuristic_of_history_witness:
  "stored_heuristic [AddNode ''A'' (5 :: int), AddEdge ''A'' ''C'' 4, AddNode ''A'' 3] ''A''
     = Some 3 \<and>
   ''A'' \<in> node_set (run [AddNode ''A'' (5 :: int), AddEdge ''A'' ''C'' 4, AddNode ''A'' 3]) \<and>
   get_heuristic (run [AddNode ''A'' (5 :: int), AddEdge ''A'' ''C'' 4, AddNode ''A'' 3]) ''A''
     = Inr 3 \<and>
   ''C'' \<in> node_set (run [AddNode ''A'' (5 :: int), AddEdge ''A'' ''C'' 4, AddNode ''A'' 3]) \<and>
   stored_heuristic [AddNode ''A'' (5 :: int), AddEdge ''A'' ''C'' 4, AddNode ''A'' 3] ''C''
     = None \<and>
   get_heuristic (run [AddNode ''A'' (5 :: int), AddEdge ''A'' ''C'' 4, AddNode ''A'' 3]) ''C''
     = Inl (KeyError ''heuristic'') \<and>
   ''B'' \<notin> node_set (run [AddNode ''A'' (5 :: int), AddEdge ''A'' ''C'' 4, AddNode ''A'' 3]) \<and>
   get_heuristic (run [AddNode ''A'' (5 :: int), AddEdge ''A'' ''C'' 4, AddNode ''A'' 3]) ''B''
     = Inl (KeyError ''B'')"
proof -
  let ?cs = "[AddNode ''A'' (5 :: int), AddEdge ''A'' ''C'' 4, AddNode ''A'' 3]"
  have a: "stored_heuristic ?cs ''A'' = Some 3"
    by simp
  have c: "''C'' \<in> node_set (run ?cs) \<and> stored_heuristic ?cs ''C'' = None"
    by (simp add: nodes_run node_set_iff)
  have b: "''B'' \<notin> node_set (run ?cs)"
    by (simp add: nodes_run node_set_iff)
  from get_heuristic_of_history[of ?cs "''A''" 3] a
  have ra: "''A'' \<in> node_set (run ?cs) \<and> get_heuristic (run ?cs) ''A'' = Inr 3"
    by blast
  from get_heuristic_of_history[of ?cs "''C''" 0] c
  have rc: "get_heuristic (run ?cs) ''C'' = Inl (KeyError ''heuristic'')"
    by blast
  from get_heuristic_of_history[of ?cs "''B''" 0] b
  have rb: "get_heuristic (run ?cs) ''B'' = Inl (KeyError ''B'')"
    by blast
  from a ra c rc b rb show ?thesis
    by blast
qed

text \<open>
  The claim as the specification states it, for every identifier that is present in the
  node set, fails: after \<^verbatim>\<open>add_node('A', 5)\<close> and \<^verbatim>\<open>add_edge('A', 'B', 1)\<close> the identifier
  B is in the node set, no heuristic was ever stored for it, and the call raises instead of
  returning a value.
\<close>

theorem get_heuristic_present_counterexample:
  "''B'' \<in> node_set (run [AddNode ''A'' (5 :: int), AddEdge ''A'' ''B'' 1]) \<and>
   stored_heuristic [AddNode ''A'' (5 :: int), AddEdge ''A'' ''B'' 1] ''B'' = None \<and>
   get_heuristic (run [AddNode ''A'' (5 :: int), AddEdge ''A'' ''B'' 1]) ''B''
     = Inl (KeyError ''heuristic'')"
  by (simp add: get_heuristic_def nodes_run node_set_iff)

section \<open>Reading the successors\<close>

text \<open>
  Claim C7, as the code has it. After any history of calls, \<^verbatim>\<open>get_neighbors\<close> returns
  for an identifier in the node set the destinations of the edges added from it, each once,
  in the order in which they were first added (the empty list when no edge was added from
  it); for an identifier that is not in the node set it raises \<^verbatim>\<open>NetworkXError\<close>.
\<close>

theorem get_neighbors_of_history:
  "(n \<in> node_set (run cs) \<longrightarrow>
      get_neighbors (run cs) n = Inr (first_occurrences (edge_targets n cs))) \<and>
   (n \<notin> node_set (run cs) \<longrightarrow> get_neighbors (run cs) n = Inl NetworkXError)"
  using succ_keys_run[of cs n] adj_present_iff[OF wf_run, of cs n]
  by (auto simp: get_neighbors_def succ_keys_def split: option.splits)

theorem get_neighbors_of_history_witness:
  "''A'' \<in> node_set (run [AddNode ''A'' (5 :: int), AddEdge ''A'' ''C'' 4, AddEdge ''A'' ''B'' 1,
                             AddEdge ''B'' ''C'' 2, AddEdge ''A'' ''C'' 7]) \<and>
   get_neighbors (run [AddNode ''A'' (5 :: int), AddEdge ''A'' ''C'' 4, AddEdge ''A'' ''B'' 1,
                       AddEdge ''B'' ''C'' 2, AddEdge ''A'' ''C'' 7]) ''A''
     = Inr [''C'', ''B''] \<and>
   ''D'' \<notin> node_set (run [AddNode ''A'' (5 :: int), AddEdge ''A'' ''C'' 4, AddEdge ''A'' ''B'' 1,
                             AddEdge ''B'' ''C'' 2, AddEdge ''A'' ''C'' 7]) \<and>
   get_neighbors (run [AddNode ''A'' (5 :: int), AddEdge ''A'' ''C'' 4, AddEdge ''A'' ''B'' 1,
                       AddEdge ''B'' ''C'' 2, AddEdge ''A'' ''C'' 7]) ''D''
     = Inl NetworkXError"
  using get_neighbors_of_history
          [of "''A''" "[AddNode ''A'' (5 :: int), AddEdge ''A'' ''C'' 4, AddEdge ''A'' ''B'' 1,
                        AddEdge ''B'' ''C'' 2, AddEdge ''A'' ''C'' 7]"]
        get_neighbors_of_history
          [of "''D''" "[AddNode ''A'' (5 :: int), AddEdge ''A'' ''C'' 4, AddEdge ''A'' ''B'' 1,
                        AddEdge ''B'' ''C'' 2, AddEdge ''A'' ''C'' 7]"]
  by (simp add: nodes_run node_set_iff first_occurrences_def)

text \<open>
  The claim as the specification states it, for every identifier, fails: on an identifier
  that is not a node, and so has no outgoing edge, the call raises instead of returning the
  empty list.
\<close>

theorem get_neighbors_unknown_counterexample:
  "edge_targets ''A'' ([] :: int call list) = [] \<and>
   get_neighbors (run ([] :: int call list)) ''A'' = Inl NetworkXError \<and>
   get_neighbors (run ([] :: int call list)) ''A'' \<noteq> Inr []"
  by (simp add: run_def Graph_init_def get_neighbors_def)

section \<open>A designation never dangles\<close>

text \<open>
  Claim C9. Whenever \<^verbatim>\<open>start_node\<close> is not \<^verbatim>\<open>None\<close> it is in the node set, and likewise
  \<^verbatim>\<open>goal_node\<close>: this holds of \<^verbatim>\<open>Graph()\<close>, is kept by \<^verbatim>\<open>add_node\<close>, \<^verbatim>\<open>add_edge\<close>,
  \<^verbatim>\<open>set_start_node\<close> and \<^verbatim>\<open>set_goal_node\<close>, holds of every graph that \<^verbatim>\<open>load_from_file\<close>
  returns and so of every graph after any history of calls. No method removes a node: the
  node set only grows under \<^verbatim>\<open>add_node\<close> and \<^verbatim>\<open>add_edge\<close> and is unchanged by the
  setters.
\<close>

theorem designations_never_dangle:
  "designations_ok (Graph_init :: 'v graph) \<and>
   (designations_ok g \<longrightarrow>
      designations_ok (add_node g n h) \<and>
      designations_ok (add_edge g u v w) \<and>
      (\<forall>g'. set_start_node g m = Inr g' \<longrightarrow> designations_ok g') \<and>
      (\<forall>g'. set_goal_node g m = Inr g' \<longrightarrow> designations_ok g')) \<and>
   (\<forall>g'. load_from_file d = Inr g' \<longrightarrow> designations_ok g') \<and>
   designations_ok (run cs) \<and>
   node_set g \<subseteq> node_set (add_node g n h) \<and>
   node_set g \<subseteq> node_set (add_edge g u v w) \<and>
   (\<forall>g'. set_start_node g m = Inr g' \<longrightarrow> node_set g' = node_set g) \<and>
   (\<forall>g'. set_goal_node g m = Inr g' \<longrightarrow> node_set g' = node_set g)"
proof -
  have mono: "node_set g \<subseteq> node_set (add_node g n h)"
             "node_set g \<subseteq> node_set (add_edge g u v w)"
    using node_set_nx_add_edge_mono[of g u v w]
    by (auto simp: add_node_def add_edge_def node_set_nx_add_node)
  have same: "\<forall>g'. set_start_node g m = Inr g' \<longrightarrow> node_set g' = node_set g"
             "\<forall>g'. set_goal_node g m = Inr g' \<longrightarrow> node_set g' = node_set g"
    by (simp_all add: set_start_node_Inr set_goal_node_Inr node_set_designation_update)
  have kept: "designations_ok g \<longrightarrow>
      designations_ok (add_node g n h) \<and>
      designations_ok (add_edge g u v w) \<and>
      (\<forall>g'. set_start_node g m = Inr g' \<longrightarrow> designations_ok g') \<and>
      (\<forall>g'. set_goal_node g m = Inr g' \<longrightarrow> designations_ok g')"
  proof
    assume ok: "designations_ok g"
    show "designations_ok (add_node g n h) \<and>
      designations_ok (add_edge g u v w) \<and>
      (\<forall>g'. set_start_node g m = Inr g' \<longrightarrow> designations_ok g') \<and>
      (\<forall>g'. set_goal_node g m = Inr g' \<longrightarrow> designations_ok g')"
      using designations_ok_add_node[OF ok, of n h] designations_ok_add_edge[OF ok, of u v w]
            designations_ok_set_start_node[OF ok, of m] designations_ok_set_goal_node[OF ok, of m]
      by simp
  qed
  have loaded: "\<forall>g'. load_from_file d = Inr g' \<longrightarrow> designations_ok g'"
  proof (intro allI impI)
    fix g'
    assume "load_from_file d = Inr g'"
    then show "designations_ok g'" by (rule designations_ok_load_from_file)
  qed
  show ?thesis
    by (intro conjI designations_ok_Graph_init kept loaded mono same designations_ok_run)
qed

theorem designations_never_dangle_witness:
  "designations_ok \<lparr>nodes = [(''A'', Some (5 :: int))], adj = [(''A'', [])],
                     start_node = Some ''A'', goal_node = None\<rparr> \<and>
   designations_ok (add_edge \<lparr>nodes = [(''A'', Some (5 :: int))], adj = [(''A'', [])],
                               start_node = Some ''A'', goal_node = None\<rparr> ''A'' ''B'' 1) \<and>
   set_goal_node \<lparr>nodes = [(''A'', Some (5 :: int))], adj = [(''A'', [])],
                   start_node = Some ''A'', goal_node = None\<rparr> ''A''
     = Inr \<lparr>nodes = [(''A'', Some 5)], adj = [(''A'', [])],
            start_node = Some ''A'', goal_node = Some ''A''\<rparr> \<and>
   designations_ok \<lparr>nodes = [(''A'', Some (5 :: int))], adj = [(''A'', [])],
                     start_node = Some ''A'', goal_node = Some ''A''\<rparr> \<and>
   load_from_file (JObj [(''nodes'', JList [JObj [(''id'', JStr ''A''), (''heuristic'', JInt 5)]]),
                         (''edges'', JList []), (''start_node'', JStr ''A'')])
     = Inr \<lparr>nodes = [(''A'', Some (JInt 5))], adj = [(''A'', [])],
            start_node = Some ''A'', goal_node = None\<rparr> \<and>
   designations_ok \<lparr>nodes = [(''A'', Some (JInt 5))], adj = [(''A'', [])],
                     start_node = Some ''A'', goal_node = None\<rparr>"
proof -
  let ?g = "\<lparr>nodes = [(''A'', Some (5 :: int))], adj = [(''A'', [])],
             start_node = Some ''A'', goal_node = None\<rparr>"
  let ?d = "JObj [(''nodes'', JList [JObj [(''id'', JStr ''A''), (''heuristic'', JInt 5)]]),
                  (''edges'', JList []), (''start_node'', JStr ''A'')]"
  have ok: "designations_ok ?g"
    by (simp add: designations_ok_def node_set_def)
  have goal: "set_goal_node ?g ''A'' = Inr (?g\<lparr>goal_node := Some ''A''\<rparr>)"
    by (simp add: set_goal_node_def)
  have load: "load_from_file ?d = Inr \<lparr>nodes = [(''A'', Some (JInt 5))], adj = [(''A'', [])],
            start_node = Some ''A'', goal_node = None\<rparr>"
    by (simp add: load_from_file_def load_designation_def add_node_def nx_add_node_def
                  Graph_init_def set_start_node_def)
  note inst = designations_never_dangle[of ?g "''B''" 0 "''A''" "''B''" 1 "''A''" ?d "[]"]
  from inst ok have edge: "designations_ok (add_edge ?g ''A'' ''B'' 1)"
    by blast
  from inst ok goal have goal_ok: "designations_ok (?g\<lparr>goal_node := Some ''A''\<rparr>)"
    by blast
  from inst load have load_ok:
    "designations_ok \<lparr>nodes = [(''A'', Some (JInt 5))], adj = [(''A'', [])],
                       start_node = Some ''A'', goal_node = None\<rparr>"
    by blast
  from ok edge goal goal_ok load load_ok show ?thesis
    by simp
qed

section \<open>One edge for each ordered pair\<close>

text \<open>
  Claim C8. After any history of calls the graph holds no ordered pair twice among its
  edges. When \<^verbatim>\<open>add_edge(u, v, w2)\<close> is called after \<^verbatim>\<open>add_edge(u, v, w1)\<close> (with any calls
  before, between and none after), \<^verbatim>\<open>get_edge_weight(u, v)\<close> returns \<open>w2\<close>, the edge list
  holds \<open>(u, v)\<close> exactly once and \<^verbatim>\<open>get_neighbors(u)\<close> holds \<open>v\<close> exactly once.
\<close>

theorem add_edge_overwrites:
  "distinct (nx_edges (run cs)) \<and>
   get_edge_weight (run (cs @ AddEdge u v w1 # cs' @ [AddEdge u v w2])) u v = Inr w2 \<and>
   count_list (nx_edges (run (cs @ AddEdge u v w1 # cs' @ [AddEdge u v w2]))) (u, v) = 1 \<and>
   (\<exists>ns. get_neighbors (run (cs @ AddEdge u v w1 # cs' @ [AddEdge u v w2])) u = Inr ns \<and>
         count_list ns v = 1)"
proof -
  define g where "g = run (cs @ AddEdge u v w1 # cs')"
  define g' where "g' = nx_add_edge g u v w2"
  have run: "run (cs @ AddEdge u v w1 # cs' @ [AddEdge u v w2]) = g'"
    using run_snoc[of "cs @ AddEdge u v w1 # cs'" "AddEdge u v w2"]
    by (simp add: g_def g'_def add_edge_def)
  have wf: "wf_graph g'"
    unfolding run[symmetric] by (rule wf_run)
  have "wf_graph g"
    unfolding g_def by (rule wf_run)
  then have "u \<in> node_set g'"
    by (simp add: g'_def node_set_nx_add_edge)
  then have nb: "get_neighbors g' u = Inr (succ_keys g' u)"
    using wf by (simp add: get_neighbors_succ_keys)
  have v: "v \<in> set (succ_keys g' u)"
    unfolding g'_def by (rule succ_keys_after_nx_add_edge)
  then have e: "(u, v) \<in> set (nx_edges g')"
    by (simp add: nx_edges_iff_succ_keys[OF wf])
  have "count_list (succ_keys g' u) v = 1"
    using wf_distinct_succ_keys[OF wf] v by (rule count_list_distinct)
  moreover have "count_list (nx_edges g') (u, v) = 1"
    using distinct_nx_edges[OF wf] e by (rule count_list_distinct)
  moreover have "get_edge_weight g' u v = Inr w2"
    unfolding g'_def by (rule get_edge_weight_nx_add_edge)
  moreover have "distinct (nx_edges (run cs))"
    by (rule distinct_nx_edges[OF wf_run])
  ultimately show ?thesis
    unfolding run using nb by simp
qed

section \<open>Adding an edge between unregistered identifiers\<close>

text \<open>
  Claim C3, as the code has it. \<^verbatim>\<open>add_edge\<close> has no check and no exception of its own, and
  \<^verbatim>\<open>DiGraph.add_edge\<close> registers the endpoints it does not know. After any history of
  calls, \<^verbatim>\<open>add_edge(u, v, w)\<close> returns normally: the node set gains \<open>u\<close> and \<open>v\<close>, an
  endpoint that was not in the node set carries no heuristic afterwards, every node that was
  there keeps its heuristic, the edge is recorded with its weight, and the designations are
  unchanged.
\<close>

theorem add_edge_registers_endpoints:
  "node_set (add_edge (run cs) u v w) = insert u (insert v (node_set (run cs))) \<and>
   (\<forall>n. (n = u \<or> n = v) \<and> n \<notin> node_set (run cs) \<longrightarrow>
        get_heuristic (add_edge (run cs) u v w) n = Inl (KeyError ''heuristic'')) \<and>
   (\<forall>n \<in> node_set (run cs).
        get_heuristic (add_edge (run cs) u v w) n = get_heuristic (run cs) n) \<and>
   get_edge_weight (add_edge (run cs) u v w) u v = Inr w \<and>
   start_node (add_edge (run cs) u v w) = start_node (run cs) \<and>
   goal_node (add_edge (run cs) u v w) = goal_node (run cs)"
  by (simp add: add_edge_def node_set_nx_add_edge[OF wf_run] get_heuristic_nx_add_edge[OF wf_run]
                get_edge_weight_nx_add_edge designations_nx_add_edge)

theorem add_edge_registers_endpoints_witness:
  "node_set (add_edge (run [AddNode ''A'' (5 :: int)]) ''A'' ''B'' 1) = {''A'', ''B''} \<and>
   ''B'' \<notin> node_set (run [AddNode ''A'' (5 :: int)]) \<and>
   get_heuristic (add_edge (run [AddNode ''A'' (5 :: int)]) ''A'' ''B'' 1) ''B''
     = Inl (KeyError ''heuristic'') \<and>
   ''A'' \<in> node_set (run [AddNode ''A'' (5 :: int)]) \<and>
   get_heuristic (add_edge (run [AddNode ''A'' (5 :: int)]) ''A'' ''B'' 1) ''A'' = Inr 5 \<and>
   get_edge_weight (add_edge (run [AddNode ''A'' (5 :: int)]) ''A'' ''B'' 1) ''A'' ''B'' = Inr 1"
proof -
  have g: "run [AddNode ''A'' (5 :: int)]
             = \<lparr>nodes = [(''A'', Some 5)], adj = [(''A'', [])],
                start_node = None, goal_node = None\<rparr>"
    by (simp add: run_def add_node_def nx_add_node_def Graph_init_def)
  have ns: "node_set (run [AddNode ''A'' (5 :: int)]) = {''A''}"
    by (simp add: g node_set_def)
  have h: "get_heuristic (run [AddNode ''A'' (5 :: int)]) ''A'' = Inr 5"
    by (simp add: g get_heuristic_def)
  from add_edge_registers_endpoints[of "[AddNode ''A'' (5 :: int)]" "''A''" "''B''" 1] ns h
  show ?thesis by auto
qed

text \<open>
  The claim as the specification states it fails: on the empty graph, where neither
  endpoint is registered, the call does not raise and the graph is modified.
\<close>

theorem add_edge_unregistered_counterexample:
  "''A'' \<notin> node_set (Graph_init :: int graph) \<and>
   ''B'' \<notin> node_set (Graph_init :: int graph) \<and>
   add_edge (Graph_init :: int graph) ''A'' ''B'' 1
     = \<lparr>nodes = [(''A'', None), (''B'', None)], adj = [(''A'', [(''B'', 1)]), (''B'', [])],
        start_node = None, goal_node = None\<rparr> \<and>
   add_edge (Graph_init :: int graph) ''A'' ''B'' 1 \<noteq> Graph_init"
  by (simp add: add_edge_def nx_add_edge_def nx_ensure_node_def Graph_init_def node_set_def)

section \<open>Nodes without a heuristic\<close>

text \<open>
  Claim C10. After any history of calls, an identifier that \<^verbatim>\<open>add_edge\<close> received as an
  endpoint and \<^verbatim>\<open>add_node\<close> never received is in the node set without a heuristic:
  \<^verbatim>\<open>get_heuristic\<close> on it raises \<^verbatim>\<open>KeyError('heuristic')\<close> and so does \<^verbatim>\<open>save_to_file\<close>
  on the graph. \<^verbatim>\<open>save_to_file\<close> succeeds exactly when every node of the graph was
  registered by \<^verbatim>\<open>add_node\<close>.
\<close>

theorem unregistered_endpoint_breaks_save:
  "(n \<in> edge_endpoints cs \<and> stored_heuristic cs n = None \<longrightarrow>
      n \<in> node_set (run cs) \<and>
      get_heuristic (run cs) n = Inl (KeyError ''heuristic'') \<and>
      save_to_file (run cs) = Inl (KeyError ''heuristic'')) \<and>
   ((\<exists>d. save_to_file (run cs) = Inr d) \<longleftrightarrow>
      (\<forall>k \<in> node_set (run cs). stored_heuristic cs k \<noteq> None))"
proof -
  have first: "n \<in> node_set (run cs) \<and>
      get_heuristic (run cs) n = Inl (KeyError ''heuristic'') \<and>
      save_to_file (run cs) = Inl (KeyError ''heuristic'')"
    if "n \<in> edge_endpoints cs" "stored_heuristic cs n = None"
  proof -
    from that have m: "map_of (nodes (run cs)) n = Some None"
      by (simp add: nodes_run)
    then have "n \<in> node_set (run cs)" by (simp add: node_set_iff)
    with m show ?thesis
      by (simp add: get_heuristic_def save_to_file_fail)
  qed
  have second: "\<exists>d. save_to_file (run cs) = Inr d"
    if "\<forall>k \<in> node_set (run cs). stored_heuristic cs k \<noteq> None"
  proof (rule save_to_file_succeed[OF wf_run], rule ballI)
    fix k assume "k \<in> node_set (run cs)"
    with that obtain h where "stored_heuristic cs k = Some h" by auto
    then show "\<exists>h. map_of (nodes (run cs)) k = Some (Some h)"
      by (simp add: nodes_run)
  qed
  have third: "stored_heuristic cs k \<noteq> None"
    if "save_to_file (run cs) = Inr d" "k \<in> node_set (run cs)" for d k
  proof
    assume none: "stored_heuristic cs k = None"
    with that(2) have "map_of (nodes (run cs)) k = Some None"
      by (auto simp: nodes_run node_set_iff split: if_splits)
    with that(2) have "save_to_file (run cs) = Inl (KeyError ''heuristic'')"
      by (rule save_to_file_fail)
    with that(1) show False by simp
  qed
  from first second third show ?thesis by blast
qed

theorem unregistered_endpoint_breaks_save_witness:
  "''B'' \<in> edge_endpoints [AddNode ''A'' (JInt 5), AddEdge ''A'' ''B'' (JInt 1)] \<and>
   stored_heuristic [AddNode ''A'' (JInt 5), AddEdge ''A'' ''B'' (JInt 1)] ''B'' = None \<and>
   ''B'' \<in> node_set (run [AddNode ''A'' (JInt 5), AddEdge ''A'' ''B'' (JInt 1)]) \<and>
   get_heuristic (run [AddNode ''A'' (JInt 5), AddEdge ''A'' ''B'' (JInt 1)]) ''B''
     = Inl (KeyError ''heuristic'') \<and>
   save_to_file (run [AddNode ''A'' (JInt 5), AddEdge ''A'' ''B'' (JInt 1)])
     = Inl (KeyError ''heuristic'') \<and>
   node_set (run [AddNode ''A'' (JInt 5), AddNode ''B'' (JInt 3),
                  AddEdge ''A'' ''B'' (JInt 1)]) = {''A'', ''B''} \<and>
   stored_heuristic [AddNode ''A'' (JInt 5), AddNode ''B'' (JInt 3),
                     AddEdge ''A'' ''B'' (JInt 1)] ''A'' = Some (JInt 5) \<and>
   stored_heuristic [AddNode ''A'' (JInt 5), AddNode ''B'' (JInt 3),
                     AddEdge ''A'' ''B'' (JInt 1)] ''B'' = Some (JInt 3) \<and>
   (\<exists>d. save_to_file (run [AddNode ''A'' (JInt 5), AddNode ''B'' (JInt 3),
                             AddEdge ''A'' ''B'' (JInt 1)]) = Inr d)"
proof -
  let ?bad = "[AddNode ''A'' (JInt 5), AddEdge ''A'' ''B'' (JInt 1)]"
  let ?good = "[AddNode ''A'' (JInt 5), AddNode ''B'' (JInt 3), AddEdge ''A'' ''B'' (JInt 1)]"
  have hyp: "''B'' \<in> edge_endpoints ?bad \<and> stored_heuristic ?bad ''B'' = None"
    by simp
  have "run ?good = \<lparr>nodes = [(''A'', Some (JInt 5)), (''B'', Some (JInt 3))],
                       adj = [(''A'', [(''B'', JInt 1)]), (''B'', [])],
                       start_node = None, goal_node = None\<rparr>"
    by (simp add: run_def add_node_def add_edge_def nx_add_node_def nx_add_edge_def
                  nx_ensure_node_def Graph_init_def)
  then have ns: "node_set (run ?good) = {''A'', ''B''}"
    by (simp add: node_set_def)
  have st: "stored_heuristic ?good ''A'' = Some (JInt 5)"
           "stored_heuristic ?good ''B'' = Some (JInt 3)"
    by simp_all
  from ns st have all: "\<forall>k \<in> node_set (run ?good). stored_heuristic ?good k \<noteq> None"
    by simp
  from unregistered_endpoint_breaks_save[of "''B''" ?bad] hyp
  have bad: "''B'' \<in> node_set (run ?bad) \<and>
             get_heuristic (run ?bad) ''B'' = Inl (KeyError ''heuristic'') \<and>
             save_to_file (run ?bad) = Inl (KeyError ''heuristic'')"
    by blast
  from unregistered_endpoint_breaks_save[of "''B''" ?good] all
  have good: "\<exists>d. save_to_file (run ?good) = Inr d"
    by blast
  from hyp bad ns st good show ?thesis
    by blast
qed

section \<open>The round trip through a file\<close>

text \<open>
  Claim C1. Loading what was saved should give back the node set with its heuristics, the
  edge set with its weights and the start and goal designations. The code does so for
  nodes, heuristics, edges and weights (\<open>roundtrip_up_to_empty_designation\<close>), but not
  for every designation: the graph with the nodes \<^verbatim>\<open>""\<close> (heuristic 0) and \<^verbatim>\<open>"A"\<close>
  (heuristic 1), the edge from \<^verbatim>\<open>""\<close> to \<^verbatim>\<open>"A"\<close> of weight 2, start \<^verbatim>\<open>""\<close> and goal
  \<^verbatim>\<open>"A"\<close> is saved with \<^verbatim>\<open>"start_node": ""\<close>, and loading that file returns a graph whose
  start is unset, because the guard \<^verbatim>\<open>if graph_data.get('start_node'):\<close> tests the truth
  value of the identifier instead of comparing it with \<^verbatim>\<open>None\<close>.
\<close>

theorem roundtrip_loses_empty_start:
  "run [AddNode [] (JInt 0), AddNode ''A'' (JInt 1), AddEdge [] ''A'' (JInt 2),
        SetStartNode [], SetGoalNode ''A'']
     = \<lparr>nodes = [([], Some (JInt 0)), (''A'', Some (JInt 1))],
        adj = [([], [(''A'', JInt 2)]), (''A'', [])],
        start_node = Some [], goal_node = Some ''A''\<rparr> \<and>
   save_to_file \<lparr>nodes = [([], Some (JInt 0)), (''A'', Some (JInt 1))],
                  adj = [([], [(''A'', JInt 2)]), (''A'', [])],
                  start_node = Some [], goal_node = Some ''A''\<rparr>
     = Inr (JObj [(''nodes'', JList [JObj [(''id'', JStr []), (''heuristic'', JInt 0)],
                                     JObj [(''id'', JStr ''A''), (''heuristic'', JInt 1)]]),
                  (''edges'', JList [JObj [(''from'', JStr []), (''to'', JStr ''A''),
                                           (''weight'', JInt 2)]]),
                  (''start_node'', JStr []),
                  (''goal_node'', JStr ''A'')]) \<and>
   load_from_file
       (JObj [(''nodes'', JList [JObj [(''id'', JStr []), (''heuristic'', JInt 0)],
                                 JObj [(''id'', JStr ''A''), (''heuristic'', JInt 1)]]),
              (''edges'', JList [JObj [(''from'', JStr []), (''to'', JStr ''A''),
                                       (''weight'', JInt 2)]]),
              (''start_node'', JStr []),
              (''goal_node'', JStr ''A'')])
     = Inr \<lparr>nodes = [([], Some (JInt 0)), (''A'', Some (JInt 1))],
            adj = [([], [(''A'', JInt 2)]), (''A'', [])],
            start_node = None, goal_node = Some ''A''\<rparr>"
  by (simp add: run_example save_to_file_def get_heuristic_def get_edge_weight_def nx_edges_def
                json_of_designation_def load_from_file_def load_designation_def
                add_node_def add_edge_def nx_add_node_def nx_add_edge_def
                nx_ensure_node_def Graph_init_def set_start_node_def set_goal_node_def)

end
